theory Spec2Isabelle
  imports Complex_Main "HOL-Library.Multiset"
begin

section \<open>Python strings\<close>

text \<open>
  A Python \<open>str\<close> is a sequence of code points. The headers and labels of this
  program are Spanish text, so a string is modelled as a list of code points below 256
  (Latin-1): the character \<open>CHR 0xF1\<close> is the letter n with tilde, \<open>CHR 0xE1\<close> the
  letter a with acute accent, and so on. \<open>str.isspace\<close>, \<open>str.lower\<close>,
  \<open>str.strip\<close> and \<open>str.replace\<close> are written out for that range.
\<close>

definition py_isspace :: "char \<Rightarrow> bool" where
  "py_isspace c =
     (let n = (of_char c :: nat)
      in (9 \<le> n \<and> n \<le> 13) \<or> (28 \<le> n \<and> n \<le> 32) \<or> n = 133 \<or> n = 160)"

definition lower_char :: "char \<Rightarrow> char" where
  "lower_char c =
     (let n = (of_char c :: nat)
      in if (65 \<le> n \<and> n \<le> 90) \<or> (192 \<le> n \<and> n \<le> 222 \<and> n \<noteq> 215)
         then char_of (n + 32) else c)"

definition py_lower :: "string \<Rightarrow> string" where
  "py_lower s = map lower_char s"

text \<open>\<open>s.strip()\<close>: whitespace removed at both ends.\<close>

definition py_strip :: "string \<Rightarrow> string" where
  "py_strip s = rev (dropWhile py_isspace (rev (dropWhile py_isspace s)))"

text \<open>\<open>s.strip(chars)\<close>: the characters of \<open>chars\<close> removed at both ends.\<close>

definition py_strip_chars :: "string \<Rightarrow> string \<Rightarrow> string" where
  "py_strip_chars chars s =
     rev (dropWhile (\<lambda>c. c \<in> set chars) (rev (dropWhile (\<lambda>c. c \<in> set chars) s)))"

text \<open>\<open>old in s\<close>: \<open>old\<close> occurs in \<open>s\<close> as a contiguous substring.\<close>

fun py_in :: "string \<Rightarrow> string \<Rightarrow> bool" where
  "py_in old [] = (old = [])"
| "py_in old (c # cs) = (take (length old) (c # cs) = old \<or> py_in old cs)"

text \<open>
  \<open>s.replace(old, new)\<close>: the occurrences of \<open>old\<close> are replaced from the left,
  without overlap; an empty \<open>old\<close> puts \<open>new\<close> around every character.
\<close>

function py_replace :: "string \<Rightarrow> string \<Rightarrow> string \<Rightarrow> string" where
  "py_replace old new s =
     (if old = [] then new @ concat (map (\<lambda>c. c # new) s)
      else if s = [] then []
      else if take (length old) s = old
        then new @ py_replace old new (drop (length old) s)
      else hd s # py_replace old new (tl s))"
  by pat_completeness auto
termination
  by (relation "measure (\<lambda>(old, new, s). length s)") auto

declare py_replace.simps [simp del]

lemma py_replace_Nil [simp]: "old \<noteq> [] \<Longrightarrow> py_replace old new [] = []"
  by (simp add: py_replace.simps)

lemma py_replace_char [simp]: "py_replace [a] [b] s = map (\<lambda>c. if c = a then b else c) s"
proof (induction s)
  case Nil
  show ?case by simp
next
  case (Cons c cs)
  then show ?case by (subst py_replace.simps) simp
qed

lemma py_replace_uu_simps [simp]:
  "py_replace ''__'' ''_'' [c] = [c]"
  "py_replace ''__'' ''_'' (CHR ''_'' # CHR ''_'' # s) = CHR ''_'' # py_replace ''__'' ''_'' s"
  "c \<noteq> CHR ''_'' \<Longrightarrow> py_replace ''__'' ''_'' (c # s) = c # py_replace ''__'' ''_'' s"
  "d \<noteq> CHR ''_'' \<Longrightarrow> py_replace ''__'' ''_'' (c # d # s) = c # py_replace ''__'' ''_'' (d # s)"
  by (subst py_replace.simps, simp)+

lemma py_in_uu_simps [simp]:
  "py_in ''__'' [c] = False"
  "py_in ''__'' (c # d # s) = ((c = CHR ''_'' \<and> d = CHR ''_'') \<or> py_in ''__'' (d # s))"
  by auto

lemma length_py_replace_uu_le: "length (py_replace ''__'' ''_'' s) \<le> length s"
proof (induction s rule: length_induct)
  case (1 s)
  show ?case
  proof (cases s)
    case Nil
    then show ?thesis by simp
  next
    case (Cons c t)
    note s = this
    show ?thesis
    proof (cases t)
      case Nil
      with s show ?thesis by simp
    next
      case (Cons d u)
      show ?thesis
      proof (cases "c = CHR ''_'' \<and> d = CHR ''_''")
        case True
        have "length (py_replace ''__'' ''_'' u) \<le> length u"
          using 1 s Cons by simp
        with True s Cons show ?thesis by simp
      next
        case False
        have "length (py_replace ''__'' ''_'' t) \<le> length t"
          using 1 s by simp
        moreover have "py_replace ''__'' ''_'' s = c # py_replace ''__'' ''_'' t"
          using False s Cons by (cases "c = CHR ''_''") simp_all
        ultimately show ?thesis using s by simp
      qed
    qed
  qed
qed

lemma length_py_replace_uu_less:
  "py_in ''__'' s \<Longrightarrow> length (py_replace ''__'' ''_'' s) < length s"
proof (induction s rule: length_induct)
  case (1 s)
  show ?case
  proof (cases s)
    case Nil
    with 1 show ?thesis by simp
  next
    case (Cons c t)
    note s = this
    show ?thesis
    proof (cases t)
      case Nil
      with s 1 show ?thesis by simp
    next
      case (Cons d u)
      show ?thesis
      proof (cases "c = CHR ''_'' \<and> d = CHR ''_''")
        case True
        have "length (py_replace ''__'' ''_'' u) \<le> length u"
          by (rule length_py_replace_uu_le)
        with True s Cons show ?thesis by simp
      next
        case False
        then have "py_in ''__'' t" using 1(2) s Cons by auto
        then have "length (py_replace ''__'' ''_'' t) < length t"
          using 1(1) s by simp
        moreover have "py_replace ''__'' ''_'' s = c # py_replace ''__'' ''_'' t"
          using False s Cons by (cases "c = CHR ''_''") simp_all
        ultimately show ?thesis using s by simp
      qed
    qed
  qed
qed

section \<open>Column-name normalisation\<close>

text \<open>
  The loop of \<open>to_snake\<close>:
  \<^verbatim>\<open>while "__" in clean_value: clean_value = clean_value.replace("__", "_")\<close>
\<close>

function collapse_loop :: "string \<Rightarrow> string" where
  "collapse_loop s =
     (if py_in ''__'' s then collapse_loop (py_replace ''__'' ''_'' s) else s)"
  by pat_completeness auto
termination
  by (relation "measure length") (auto simp: length_py_replace_uu_less)

declare collapse_loop.simps [simp del]

text \<open>The inner function \<open>to_snake\<close> of \<open>standardize_column_names\<close>.\<close>

definition to_snake :: "string \<Rightarrow> string" where
  "to_snake v =
     (let clean_value = py_replace '' '' ''_'' (py_lower (py_strip v));
          clean_value = py_replace ''-'' ''_'' clean_value;
          clean_value =
            py_replace [CHR 0xFA] ''u'' (py_replace [CHR 0xF3] ''o''
              (py_replace [CHR 0xED] ''i'' (py_replace [CHR 0xE9] ''e''
                (py_replace [CHR 0xE1] ''a'' clean_value))));
          clean_value = py_replace [CHR 0xF1] ''n'' clean_value;
          clean_value = collapse_loop clean_value
      in py_strip_chars ''_'' clean_value)"

subsection \<open>The normaliser as the specification words it\<close>

text \<open>
  The specification describes the normaliser as a chain of six passes. They are written
  here from its words, to be compared with \<open>to_snake\<close>.
\<close>

definition spec_replace_separators :: "string \<Rightarrow> string" where
  "spec_replace_separators s =
     map (\<lambda>c. if c = CHR '' '' \<or> c = CHR ''-'' then CHR ''_'' else c) s"

definition spec_fold_char :: "char \<Rightarrow> char" where
  "spec_fold_char c =
     (if c = CHR 0xE1 then CHR ''a''
      else if c = CHR 0xE9 then CHR ''e''
      else if c = CHR 0xED then CHR ''i''
      else if c = CHR 0xF3 then CHR ''o''
      else if c = CHR 0xFA then CHR ''u''
      else if c = CHR 0xF1 then CHR ''n''
      else c)"

fun spec_collapse_runs :: "string \<Rightarrow> string" where
  "spec_collapse_runs (c # d # s) =
     (if c = CHR ''_'' \<and> d = CHR ''_'' then spec_collapse_runs (d # s)
      else c # spec_collapse_runs (d # s))"
| "spec_collapse_runs s = s"

definition spec_strip_underscores :: "string \<Rightarrow> string" where
  "spec_strip_underscores s =
     rev (dropWhile (\<lambda>c. c = CHR ''_'') (rev (dropWhile (\<lambda>c. c = CHR ''_'') s)))"

definition spec_normalize :: "string \<Rightarrow> string" where
  "spec_normalize s =
     spec_strip_underscores (spec_collapse_runs (map spec_fold_char
       (spec_replace_separators (py_lower (py_strip s)))))"

section \<open>Tables\<close>

text \<open>
  A cell of a table is missing (\<open>NaN\<close>), an integer, a float or a text. A float is
  an exact rational or one of the two infinities; the rounding of floats is outside the
  model. An integer cell holds a 64-bit integer. A table has a row index (the row labels)
  and named columns, every column as long as the index. Column labels may repeat, as the
  library allows.
\<close>

datatype float64 = Finite rat | PosInf | NegInf

datatype cell = NaN | IntV int | FloatV float64 | StrV string

datatype error = KeyError "string list" | TypeError | ValueError | AttributeError

record dataframe =
  index :: "nat list"
  columns :: "(string \<times> cell list) list"

definition nrows :: "dataframe \<Rightarrow> nat" where
  "nrows df = length (index df)"

definition ncols :: "dataframe \<Rightarrow> nat" where
  "ncols df = length (columns df)"

definition names :: "dataframe \<Rightarrow> string list" where
  "names df = map fst (columns df)"

definition frame_ok :: "dataframe \<Rightarrow> bool" where
  "frame_ok df = list_all (\<lambda>nc. length (snd nc) = length (index df)) (columns df)"

definition notna :: "cell \<Rightarrow> bool" where
  "notna c = (c \<noteq> NaN)"

definition is_int :: "cell \<Rightarrow> bool" where
  "is_int c = (case c of IntV i \<Rightarrow> True | _ \<Rightarrow> False)"

text \<open>Row \<open>i\<close> of a table: its label and its cells, in column order.\<close>

definition row_cells :: "dataframe \<Rightarrow> nat \<Rightarrow> cell list" where
  "row_cells df i = map (\<lambda>nc. snd nc ! i) (columns df)"

definition row_at :: "dataframe \<Rightarrow> nat \<Rightarrow> nat \<times> cell list" where
  "row_at df i = (index df ! i, row_cells df i)"

definition rows :: "dataframe \<Rightarrow> (nat \<times> cell list) list" where
  "rows df = map (row_at df) [0..<nrows df]"

text \<open>The position of the first column with a given label, and the cell of a row in
  that column.\<close>

definition column_pos :: "dataframe \<Rightarrow> string \<Rightarrow> nat" where
  "column_pos df column = length (takeWhile (\<lambda>n. n \<noteq> column) (names df))"

definition cell_in :: "dataframe \<Rightarrow> string \<Rightarrow> nat \<times> cell list \<Rightarrow> cell" where
  "cell_in df column r = snd r ! column_pos df column"

definition column_cells :: "dataframe \<Rightarrow> string \<Rightarrow> cell list" where
  "column_cells df column = snd (columns df ! column_pos df column)"

subsection \<open>Library operations on tables\<close>

text \<open>\<open>df.loc[mask]\<close>: the rows whose mask entry is true, with their labels.\<close>

definition select :: "bool list \<Rightarrow> 'a list \<Rightarrow> 'a list" where
  "select keep xs = map snd (filter fst (zip keep xs))"

definition loc_mask :: "bool list \<Rightarrow> dataframe \<Rightarrow> dataframe" where
  "loc_mask keep df =
     \<lparr>index = select keep (index df),
      columns = map (\<lambda>nc. (fst nc, select keep (snd nc))) (columns df)\<rparr>"

text \<open>\<open>df.take(indexer)\<close>: the rows at the given positions, in that order.\<close>

definition take_rows :: "nat list \<Rightarrow> dataframe \<Rightarrow> dataframe" where
  "take_rows p df =
     \<lparr>index = map ((!) (index df)) p,
      columns = map (\<lambda>nc. (fst nc, map ((!) (snd nc)) p)) (columns df)\<rparr>"

text \<open>\<open>df.reset_index(drop=True)\<close>: the labels become 0, 1, 2, ...\<close>

definition reset_index :: "dataframe \<Rightarrow> dataframe" where
  "reset_index df = df\<lparr>index := [0..<length (index df)]\<rparr>"

text \<open>\<open>df.dropna(axis=1, how="all")\<close> keeps a column when some cell of it is present;
  \<open>df.dropna(axis=0, how="all")\<close> keeps a row when some cell of it is present.\<close>

definition dropna_all_columns :: "dataframe \<Rightarrow> dataframe" where
  "dropna_all_columns df =
     df\<lparr>columns := filter (\<lambda>nc. list_ex notna (snd nc)) (columns df)\<rparr>"

definition dropna_all_rows :: "dataframe \<Rightarrow> dataframe" where
  "dropna_all_rows df =
     loc_mask (map (\<lambda>i. list_ex notna (row_cells df i)) [0..<nrows df]) df"

text \<open>\<open>df.rename(columns=mapping)\<close>: a label that is a key of the dictionary is
  replaced by its value, every other label stays; a key that is no label is ignored.\<close>

definition rename_columns :: "(string \<rightharpoonup> string) \<Rightarrow> dataframe \<Rightarrow> dataframe" where
  "rename_columns mapping df =
     df\<lparr>columns :=
          map (\<lambda>nc. (case mapping (fst nc) of None \<Rightarrow> fst nc | Some t \<Rightarrow> t, snd nc))
            (columns df)\<rparr>"

text \<open>\<open>df[column]\<close>: no such label raises \<open>KeyError\<close>; one column with the label is
  a series; several columns with the label are a table, on which the series operation
  that follows raises the error \<open>bad\<close>.\<close>

definition getitem :: "error \<Rightarrow> dataframe \<Rightarrow> string \<Rightarrow> error + cell list" where
  "getitem bad df column =
     (case filter (\<lambda>nc. fst nc = column) (columns df) of
        [] \<Rightarrow> Inl (KeyError [column])
      | [nc] \<Rightarrow> Inr (snd nc)
      | _ \<Rightarrow> Inl bad)"

text \<open>\<open>df[column] = values\<close>: an existing column is replaced, a new one is appended.\<close>

definition setitem :: "dataframe \<Rightarrow> string \<Rightarrow> cell list \<Rightarrow> dataframe" where
  "setitem df column vs =
     (if column \<in> set (names df)
      then df\<lparr>columns := map (\<lambda>nc. if fst nc = column then (fst nc, vs) else nc) (columns df)\<rparr>
      else df\<lparr>columns := columns df @ [(column, vs)]\<rparr>)"

text \<open>
  \<open>pd.to_numeric(series, errors="coerce")\<close> gives a numeric series: \<open>None\<close> is its
  missing value. What text parses as a number, and as which number (the text \<open>inf\<close>
  parses as infinity), is the library's business: the parser is the parameter
  \<open>parse\<close>. \<open>.notna()\<close> and \<open>.fillna(0)\<close> follow.
\<close>

definition to_numeric :: "(string \<Rightarrow> float64 option) \<Rightarrow> cell \<Rightarrow> float64 option" where
  "to_numeric parse c =
     (case c of NaN \<Rightarrow> None | IntV i \<Rightarrow> Some (Finite (of_int i)) | FloatV x \<Rightarrow> Some x
      | StrV s \<Rightarrow> parse s)"

definition fillna0 :: "float64 option \<Rightarrow> float64" where
  "fillna0 v = (case v of None \<Rightarrow> Finite 0 | Some x \<Rightarrow> x)"

text \<open>
  \<open>.astype(int)\<close> on a numeric series raises \<open>ValueError\<close> (the library's
  \<open>IntCastingNaNError\<close>) when some value is not finite. Otherwise every value is
  truncated towards zero and stored as a 64-bit integer; what a value outside the 64-bit
  range becomes is left to the platform, the parameter \<open>wrap\<close>. \<open>finite_value\<close> is
  only read on finite values.
\<close>

definition is_finite :: "float64 \<Rightarrow> bool" where
  "is_finite x = (case x of Finite q \<Rightarrow> True | _ \<Rightarrow> False)"

definition finite_value :: "float64 \<Rightarrow> rat" where
  "finite_value x = (case x of Finite q \<Rightarrow> q | _ \<Rightarrow> 0)"

definition trunc_zero :: "rat \<Rightarrow> int" where
  "trunc_zero q = (if 0 \<le> q then \<lfloor>q\<rfloor> else \<lceil>q\<rceil>)"

definition in_int64 :: "int \<Rightarrow> bool" where
  "in_int64 i = (- (2 ^ 63) \<le> i \<and> i < 2 ^ 63)"

definition cast_int64 :: "(rat \<Rightarrow> int) \<Rightarrow> rat \<Rightarrow> int" where
  "cast_int64 wrap q = (if in_int64 (trunc_zero q) then trunc_zero q else wrap q)"

definition astype_int :: "(rat \<Rightarrow> int) \<Rightarrow> float64 list \<Rightarrow> error + int list" where
  "astype_int wrap values =
     (if list_all is_finite values
      then Inr (map (\<lambda>x. cast_int64 wrap (finite_value x)) values)
      else Inl ValueError)"

text \<open>The chain \<open>pd.to_numeric(series, errors="coerce").fillna(0).astype(int)\<close>.\<close>

definition to_int_series ::
  "(string \<Rightarrow> float64 option) \<Rightarrow> (rat \<Rightarrow> int) \<Rightarrow> cell list \<Rightarrow> error + cell list" where
  "to_int_series parse wrap series =
     (case astype_int wrap (map (\<lambda>c. fillna0 (to_numeric parse c)) series) of
        Inl e \<Rightarrow> Inl e
      | Inr ints \<Rightarrow> Inr (map IntV ints))"

text \<open>
  A cell is free of infinity when it is not an infinite float and not a text that parses
  to one; \<open>int_cell\<close> is the integer that the chain above stores for such a cell.
\<close>

definition finite_cell :: "(string \<Rightarrow> float64 option) \<Rightarrow> cell \<Rightarrow> bool" where
  "finite_cell parse c =
     (case c of
        FloatV x \<Rightarrow> is_finite x
      | StrV s \<Rightarrow> (case parse s of None \<Rightarrow> True | Some x \<Rightarrow> is_finite x)
      | _ \<Rightarrow> True)"

definition int_cell :: "(string \<Rightarrow> float64 option) \<Rightarrow> (rat \<Rightarrow> int) \<Rightarrow> cell \<Rightarrow> cell" where
  "int_cell parse wrap c = IntV (cast_int64 wrap (finite_value (fillna0 (to_numeric parse c))))"

text \<open>
  \<open>df.dropna(subset=labels, how="any")\<close>: a label that is no column raises
  \<open>KeyError\<close>; a row is kept when all its cells in the named columns are present.
\<close>

definition dropna_any_subset :: "string list \<Rightarrow> dataframe \<Rightarrow> error + dataframe" where
  "dropna_any_subset labels df =
     (case filter (\<lambda>c. c \<notin> set (names df)) labels of
        m # ms \<Rightarrow> Inl (KeyError (m # ms))
      | [] \<Rightarrow>
          (let agg = filter (\<lambda>nc. fst nc \<in> set labels) (columns df)
           in Inr (loc_mask
                (map (\<lambda>i. list_all (\<lambda>nc. notna (snd nc ! i)) agg) [0..<nrows df]) df)))"

text \<open>
  \<open>series.astype(str)\<close>: a text stays, a missing cell becomes the text \<open>nan\<close>, an
  integer its decimal digits; how a float prints is the parameter \<open>float_str\<close>.
\<close>

function str_nat :: "nat \<Rightarrow> string" where
  "str_nat n =
     (if n < 10 then [char_of (48 + n)]
      else str_nat (n div 10) @ [char_of (48 + n mod 10)])"
  by pat_completeness auto
termination
  by (relation "measure id") auto

declare str_nat.simps [simp del]

definition str_int :: "int \<Rightarrow> string" where
  "str_int i = (if i < 0 then CHR ''-'' # str_nat (nat (- i)) else str_nat (nat i))"

definition astype_str :: "(float64 \<Rightarrow> string) \<Rightarrow> cell \<Rightarrow> string" where
  "astype_str float_str c =
     (case c of StrV s \<Rightarrow> s | NaN \<Rightarrow> ''nan'' | IntV i \<Rightarrow> str_int i
      | FloatV x \<Rightarrow> float_str x)"

subsection \<open>Ordering of cells and sorting\<close>

text \<open>
  Numbers compare by value and texts by code points, position by position. Where the
  library puts values of several kinds in one order (the keys of a join), numbers come
  before texts and missing values last.
\<close>

fun str_le :: "string \<Rightarrow> string \<Rightarrow> bool" where
  "str_le [] t = True"
| "str_le (a # s) [] = False"
| "str_le (a # s) (b # t) =
     ((of_char a :: nat) < of_char b \<or> (a = b \<and> str_le s t))"

fun float_le :: "float64 \<Rightarrow> float64 \<Rightarrow> bool" where
  "float_le NegInf y = True"
| "float_le x PosInf = True"
| "float_le (Finite p) (Finite q) = (p \<le> q)"
| "float_le x y = False"

definition num_val :: "cell \<Rightarrow> float64" where
  "num_val c = (case c of IntV i \<Rightarrow> Finite (of_int i) | FloatV x \<Rightarrow> x | _ \<Rightarrow> Finite 0)"

fun cell_le :: "cell \<Rightarrow> cell \<Rightarrow> bool" where
  "cell_le a NaN = True"
| "cell_le NaN b = False"
| "cell_le (StrV s) (StrV t) = str_le s t"
| "cell_le (StrV s) b = False"
| "cell_le a (StrV t) = True"
| "cell_le a b = float_le (num_val a) (num_val b)"

definition is_num :: "cell \<Rightarrow> bool" where
  "is_num c = (case c of IntV i \<Rightarrow> True | FloatV q \<Rightarrow> True | _ \<Rightarrow> False)"

definition is_str :: "cell \<Rightarrow> bool" where
  "is_str c = (case c of StrV s \<Rightarrow> True | _ \<Rightarrow> False)"

text \<open>The values of a column can be compared with each other when they are all numbers
  or all texts; comparing a number with a text raises \<open>TypeError\<close>.\<close>

definition comparable :: "cell list \<Rightarrow> bool" where
  "comparable ks = (list_all is_num ks \<or> list_all is_str ks)"

text \<open>
  \<open>df.sort_values(by=column, ascending=ascending)\<close> sorts with the library's default
  routine, \<open>kind="quicksort"\<close>, for which the library promises an ordering of the keys
  and nothing about ties. The routine is the parameter \<open>argsort\<close>: given the array of
  keys it returns the positions in sorted order. \<open>argsort_ok\<close> says that it did order
  the array it was given. The wrapper \<open>nargsort\<close> is the library's: missing keys are
  set aside and come last, and for a descending sort the array is reversed before the
  routine runs and the result is reversed again.
\<close>

definition argsort_ok :: "(cell list \<Rightarrow> nat list) \<Rightarrow> cell list \<Rightarrow> bool" where
  "argsort_ok argsort ks =
     (mset (argsort ks) = mset [0..<length ks] \<and>
      sorted_wrt cell_le (map ((!) ks) (argsort ks)))"

text \<open>The array of keys that \<open>nargsort\<close> hands to the routine.\<close>

definition sort_keys :: "cell list \<Rightarrow> bool \<Rightarrow> cell list" where
  "sort_keys items ascending =
     (if ascending then filter notna items else rev (filter notna items))"

definition non_nan_positions :: "cell list \<Rightarrow> bool \<Rightarrow> nat list" where
  "non_nan_positions k ascending =
     (if ascending then filter (\<lambda>i. notna (k ! i)) [0..<length k]
      else rev (filter (\<lambda>i. notna (k ! i)) [0..<length k]))"

definition nargsort :: "(cell list \<Rightarrow> nat list) \<Rightarrow> cell list \<Rightarrow> bool \<Rightarrow> nat list" where
  "nargsort argsort items ascending =
     (let idx = [0..<length items];
          non_nan_idx = filter (\<lambda>i. notna (items ! i)) idx;
          nan_idx = filter (\<lambda>i. \<not> notna (items ! i)) idx;
          non_nan_idx = (if ascending then non_nan_idx else rev non_nan_idx);
          non_nans = map ((!) items) non_nan_idx;
          indexer = map ((!) non_nan_idx) (argsort non_nans);
          indexer = (if ascending then indexer else rev indexer)
      in indexer @ nan_idx)"

definition sort_values ::
  "(cell list \<Rightarrow> nat list) \<Rightarrow> dataframe \<Rightarrow> string \<Rightarrow> bool \<Rightarrow> error + dataframe" where
  "sort_values argsort df by ascending =
     (case getitem ValueError df by of
        Inl e \<Rightarrow> Inl e
      | Inr k \<Rightarrow>
          if comparable (filter notna k)
          then Inr (take_rows (nargsort argsort k ascending) df)
          else Inl TypeError)"

subsection \<open>Outer join\<close>

text \<open>
  \<open>left.merge(right, on=key, how="outer", suffixes=(sl, sr))\<close>. Every distinct key of
  either side gives a group of rows, the groups in key order: the pairs of a left and a
  right row with that key, or the rows of one side alone when the other side lacks the
  key. A row of the result takes the cells of its left and of its right row; cells of an
  absent row are missing, and an integer column that receives a missing cell becomes a
  float column. The key column is filled from whichever side is present. A column label
  other than the key that both sides have gets the side's suffix. Key cells match when
  they are the same value.
\<close>

fun insort_by :: "('a \<Rightarrow> 'a \<Rightarrow> bool) \<Rightarrow> 'a \<Rightarrow> 'a list \<Rightarrow> 'a list" where
  "insort_by le x [] = [x]"
| "insort_by le x (y # ys) = (if le x y then x # y # ys else y # insort_by le x ys)"

definition sort_by :: "('a \<Rightarrow> 'a \<Rightarrow> bool) \<Rightarrow> 'a list \<Rightarrow> 'a list" where
  "sort_by le xs = foldr (insort_by le) xs []"

definition positions :: "cell \<Rightarrow> cell list \<Rightarrow> nat list" where
  "positions k ks = filter (\<lambda>i. ks ! i = k) [0..<length ks]"

definition join_group :: "cell list \<Rightarrow> cell list \<Rightarrow> cell \<Rightarrow> (nat option \<times> nat option) list" where
  "join_group lk rk k =
     (let ls = positions k lk; rs = positions k rk
      in if rs = [] then map (\<lambda>i. (Some i, None)) ls
         else if ls = [] then map (\<lambda>j. (None, Some j)) rs
         else concat (map (\<lambda>i. map (\<lambda>j. (Some i, Some j)) rs) ls))"

definition join_pairs :: "cell list \<Rightarrow> cell list \<Rightarrow> (nat option \<times> nat option) list" where
  "join_pairs lk rk = concat (map (join_group lk rk) (sort_by cell_le (remdups (lk @ rk))))"

text \<open>What a pair of the join says about its key.\<close>

definition pair_ok :: "cell list \<Rightarrow> cell list \<Rightarrow> nat option \<times> nat option \<Rightarrow> bool" where
  "pair_ok lk rk pr =
     (case pr of
        (Some i, Some j) \<Rightarrow> i < length lk \<and> j < length rk \<and> lk ! i = rk ! j
      | (Some i, None) \<Rightarrow> i < length lk \<and> lk ! i \<notin> set rk
      | (None, Some j) \<Rightarrow> j < length rk \<and> rk ! j \<notin> set lk
      | (None, None) \<Rightarrow> False)"

definition upcast :: "cell \<Rightarrow> cell" where
  "upcast c = (case c of IntV i \<Rightarrow> FloatV (Finite (of_int i)) | _ \<Rightarrow> c)"

definition take_opt :: "nat option list \<Rightarrow> cell list \<Rightarrow> cell list" where
  "take_opt p c =
     (if None \<in> set p \<and> list_all (\<lambda>x. case x of IntV i \<Rightarrow> True | _ \<Rightarrow> False) c
      then map (\<lambda>oi. case oi of None \<Rightarrow> NaN | Some i \<Rightarrow> upcast (c ! i)) p
      else map (\<lambda>oi. case oi of None \<Rightarrow> NaN | Some i \<Rightarrow> c ! i) p)"

definition key_value :: "cell list \<Rightarrow> cell list \<Rightarrow> nat option \<times> nat option \<Rightarrow> cell" where
  "key_value lk rk pr =
     (case fst pr of Some i \<Rightarrow> lk ! i
      | None \<Rightarrow> (case snd pr of Some j \<Rightarrow> rk ! j | None \<Rightarrow> NaN))"

definition merge_outer ::
  "dataframe \<Rightarrow> dataframe \<Rightarrow> string \<Rightarrow> string \<times> string \<Rightarrow> error + dataframe" where
  "merge_outer left right on suffixes =
     (case getitem ValueError left on of
        Inl e \<Rightarrow> Inl e
      | Inr lk \<Rightarrow>
     (case getitem ValueError right on of
        Inl e \<Rightarrow> Inl e
      | Inr rk \<Rightarrow>
          (let pairs = join_pairs lk rk;
               lname = (\<lambda>n. if n \<in> set (names right) then n @ fst suffixes else n);
               rname = (\<lambda>n. if n \<in> set (names left) then n @ snd suffixes else n)
           in Inr \<lparr>index = [0..<length pairs],
                   columns =
                     map (\<lambda>nc. if fst nc = on then (on, map (key_value lk rk) pairs)
                               else (lname (fst nc), take_opt (map fst pairs) (snd nc)))
                       (columns left)
                     @ map (\<lambda>nc. (rname (fst nc), take_opt (map snd pairs) (snd nc)))
                         (filter (\<lambda>nc. fst nc \<noteq> on) (columns right))\<rparr>)))"

section \<open>The transformation steps\<close>

definition drop_completely_empty_columns :: "dataframe \<Rightarrow> dataframe" where
  "drop_completely_empty_columns dataframe = dropna_all_columns dataframe"

definition drop_completely_empty_rows :: "dataframe \<Rightarrow> dataframe" where
  "drop_completely_empty_rows dataframe = dropna_all_rows dataframe"

definition standardize_column_names :: "dataframe \<Rightarrow> dataframe" where
  "standardize_column_names dataframe =
     rename_columns (map_of (map (\<lambda>column. (column, to_snake column)) (names dataframe)))
       dataframe"

definition filter_rows_with_numeric_column ::
  "(string \<Rightarrow> float64 option) \<Rightarrow> dataframe \<Rightarrow> string \<Rightarrow> error + dataframe" where
  "filter_rows_with_numeric_column parse dataframe column =
     (case getitem TypeError dataframe column of
        Inl e \<Rightarrow> Inl e
      | Inr series \<Rightarrow>
          (let numeric_mask = map (\<lambda>c. to_numeric parse c \<noteq> None) series
           in Inr (loc_mask numeric_mask dataframe)))"

fun enforce_integer_columns ::
  "(string \<Rightarrow> float64 option) \<Rightarrow> (rat \<Rightarrow> int) \<Rightarrow> dataframe \<Rightarrow> string list
     \<Rightarrow> error + dataframe" where
  "enforce_integer_columns parse wrap result [] = Inr result"
| "enforce_integer_columns parse wrap result (column # cols) =
     (case getitem TypeError result column of
        Inl e \<Rightarrow> Inl e
      | Inr series \<Rightarrow>
          (case to_int_series parse wrap series of
             Inl e \<Rightarrow> Inl e
           | Inr ints \<Rightarrow>
               enforce_integer_columns parse wrap (setitem result column ints) cols))"

definition make_column_renamer :: "(string \<rightharpoonup> string) \<Rightarrow> dataframe \<Rightarrow> dataframe" where
  "make_column_renamer mapping dataframe = rename_columns mapping dataframe"

definition make_numeric_row_filter ::
  "(string \<Rightarrow> float64 option) \<Rightarrow> string \<Rightarrow> dataframe \<Rightarrow> error + dataframe" where
  "make_numeric_row_filter parse column dataframe =
     filter_rows_with_numeric_column parse dataframe column"

definition make_integer_enforcer ::
  "(string \<Rightarrow> float64 option) \<Rightarrow> (rat \<Rightarrow> int) \<Rightarrow> string list \<Rightarrow> dataframe
     \<Rightarrow> error + dataframe" where
  "make_integer_enforcer parse wrap selected_columns dataframe =
     enforce_integer_columns parse wrap dataframe selected_columns"

definition make_integer_column ::
  "(string \<Rightarrow> float64 option) \<Rightarrow> (rat \<Rightarrow> int) \<Rightarrow> string \<Rightarrow> dataframe
     \<Rightarrow> error + dataframe" where
  "make_integer_column parse wrap column dataframe =
     (case getitem TypeError dataframe column of
        Inl e \<Rightarrow> Inl e
      | Inr series \<Rightarrow>
          (case to_int_series parse wrap series of
             Inl e \<Rightarrow> Inl e
           | Inr ints \<Rightarrow> Inr (setitem dataframe column ints)))"

definition make_non_null_filter :: "string list \<Rightarrow> dataframe \<Rightarrow> error + dataframe" where
  "make_non_null_filter required_columns dataframe =
     dropna_any_subset required_columns dataframe"

definition make_value_filter ::
  "(float64 \<Rightarrow> string) \<Rightarrow> string \<Rightarrow> string list \<Rightarrow> dataframe \<Rightarrow> error + dataframe" where
  "make_value_filter float_str column allowed_values dataframe =
     (let allowed = map (\<lambda>v. (py_lower v, v)) allowed_values
      in case getitem AttributeError dataframe column of
           Inl e \<Rightarrow> Inl e
         | Inr series \<Rightarrow>
             (let keep = map (\<lambda>c. py_lower (astype_str float_str c) \<in> set (map fst allowed))
                           series
              in Inr (loc_mask keep dataframe)))"

definition sort_by_column ::
  "(cell list \<Rightarrow> nat list) \<Rightarrow> dataframe \<Rightarrow> string \<Rightarrow> bool \<Rightarrow> error + dataframe" where
  "sort_by_column argsort dataframe column ascending =
     (case sort_values argsort dataframe column ascending of
        Inl e \<Rightarrow> Inl e
      | Inr sorted_frame \<Rightarrow> Inr (reset_index sorted_frame))"

definition make_sorter ::
  "(cell list \<Rightarrow> nat list) \<Rightarrow> string \<Rightarrow> bool \<Rightarrow> dataframe \<Rightarrow> error + dataframe" where
  "make_sorter argsort column ascending dataframe =
     sort_by_column argsort dataframe column ascending"

section \<open>The yearly summary\<close>

text \<open>
  \<open>build_yearly_summary\<close> merges the two by-year tables, coerces the five columns to
  integers (the statement in its loop is the one of \<open>enforce_integer_columns\<close>), sorts
  by year and renumbers the rows. The table it writes to the file is its result here.
\<close>

definition int_columns :: "string list" where
  "int_columns =
     [''year'', ''installations_adhesion'', ''companies_adhesion'',
      ''installations_certification'', ''companies_certification'']"

definition build_yearly_summary ::
  "(string \<Rightarrow> float64 option) \<Rightarrow> (rat \<Rightarrow> int) \<Rightarrow> (cell list \<Rightarrow> nat list)
     \<Rightarrow> dataframe \<Rightarrow> dataframe \<Rightarrow> error + dataframe" where
  "build_yearly_summary parse wrap argsort adhesion_by_year certification_by_year =
     (case merge_outer adhesion_by_year certification_by_year ''year''
             (''_adhesion'', ''_certification'') of
        Inl e \<Rightarrow> Inl e
      | Inr merged \<Rightarrow>
     (case enforce_integer_columns parse wrap merged int_columns of
        Inl e \<Rightarrow> Inl e
      | Inr merged \<Rightarrow> sort_by_column argsort merged ''year'' True))"

text \<open>
  The years of the merged table in the order of the join: the keys that the sort of the
  summary hands to the routine. An integer cell within the 64-bit range.
\<close>

definition summary_keys :: "dataframe \<Rightarrow> dataframe \<Rightarrow> cell list" where
  "summary_keys a c =
     map (key_value (column_cells a ''year'') (column_cells c ''year''))
       (join_pairs (column_cells a ''year'') (column_cells c ''year''))"

definition int64_cell :: "cell \<Rightarrow> bool" where
  "int64_cell c = (case c of IntV i \<Rightarrow> in_int64 i | _ \<Rightarrow> False)"

section \<open>Transformation chains\<close>

text \<open>
  A dataset's chain is a list of steps. The library's number parser, its cast of an
  out-of-range value, its float printer and its sorting routine are collected in one
  record.
\<close>

record library =
  lib_parse :: "string \<Rightarrow> float64 option"
  lib_wrap :: "rat \<Rightarrow> int"
  lib_float_str :: "float64 \<Rightarrow> string"
  lib_argsort :: "cell list \<Rightarrow> nat list"

datatype transformation =
    DropEmptyColumns
  | DropEmptyRows
  | StandardizeNames
  | ColumnRenamer "string \<rightharpoonup> string"
  | NumericRowFilter string
  | IntegerColumn string
  | IntegerEnforcer "string list"
  | Sorter string bool
  | NonNullFilter "string list"
  | ValueFilter string "string list"

fun apply_transformation :: "library \<Rightarrow> transformation \<Rightarrow> dataframe \<Rightarrow> error + dataframe" where
  "apply_transformation lib DropEmptyColumns df = Inr (drop_completely_empty_columns df)"
| "apply_transformation lib DropEmptyRows df = Inr (drop_completely_empty_rows df)"
| "apply_transformation lib StandardizeNames df = Inr (standardize_column_names df)"
| "apply_transformation lib (ColumnRenamer mapping) df = Inr (make_column_renamer mapping df)"
| "apply_transformation lib (NumericRowFilter column) df =
     make_numeric_row_filter (lib_parse lib) column df"
| "apply_transformation lib (IntegerColumn column) df =
     make_integer_column (lib_parse lib) (lib_wrap lib) column df"
| "apply_transformation lib (IntegerEnforcer cols) df =
     make_integer_enforcer (lib_parse lib) (lib_wrap lib) cols df"
| "apply_transformation lib (Sorter column ascending) df =
     make_sorter (lib_argsort lib) column ascending df"
| "apply_transformation lib (NonNullFilter cols) df = make_non_null_filter cols df"
| "apply_transformation lib (ValueFilter column allowed_values) df =
     make_value_filter (lib_float_str lib) column allowed_values df"





text \<open>
  The sorting routine did its work on the table at hand: for a sorter step, the routine
  ordered the array of keys that the step hands to it (see \<open>argsort_ok\<close>). The other
  steps do not sort.
\<close>

definition routine_ok :: "library \<Rightarrow> transformation \<Rightarrow> dataframe \<Rightarrow> bool" where
  "routine_ok lib t df =
     (case t of
        Sorter column ascending \<Rightarrow>
          argsort_ok (lib_argsort lib) (sort_keys (column_cells df column) ascending)
      | _ \<Rightarrow> True)"

text \<open>The loop of \<open>DatasetPipeline.run\<close>: the steps in order; an error ends the run.\<close>

fun run_transformations :: "library \<Rightarrow> transformation list \<Rightarrow> dataframe \<Rightarrow> error + dataframe" where
  "run_transformations lib [] df = Inr df"
| "run_transformations lib (t # ts) df =
     (case apply_transformation lib t df of
        Inl e \<Rightarrow> Inl e
      | Inr df' \<Rightarrow> run_transformations lib ts df')"

section \<open>Instances of the library routines\<close>

text \<open>
  Concrete routines to run the model on examples: a parser that reads plain decimal
  digits and the text \<open>inf\<close> (the library's parser reads both), a cast that gives
  the least 64-bit integer for a value out of range, a float printer that is never
  consulted on tables without floats, a sorting routine that keeps ties in input order
  (insertion sort), and one that is as correct a sorter but puts ties in reverse order.
\<close>

definition digit_of :: "char \<Rightarrow> nat option" where
  "digit_of c = map_of (zip ''0123456789'' [0, 1, 2, 3, 4, 5, 6, 7, 8, 9]) c"

fun digits_value :: "nat \<Rightarrow> string \<Rightarrow> nat option" where
  "digits_value acc [] = Some acc"
| "digits_value acc (c # s) =
     (case digit_of c of None \<Rightarrow> None | Some d \<Rightarrow> digits_value (10 * acc + d) s)"

definition parse_digits :: "string \<Rightarrow> float64 option" where
  "parse_digits s =
     (if s = ''inf'' then Some PosInf
      else if s = [] then None
      else map_option (\<lambda>n. Finite (of_nat n)) (digits_value 0 s))"

definition wrap_min :: "rat \<Rightarrow> int" where
  "wrap_min q = - (2 ^ 63)"

definition no_float_str :: "float64 \<Rightarrow> string" where
  "no_float_str x = []"

definition stable_argsort :: "cell list \<Rightarrow> nat list" where
  "stable_argsort ks = sort_by (\<lambda>i j. cell_le (ks ! i) (ks ! j)) [0..<length ks]"


section \<open>Example tables\<close>

text \<open>A raw table as the reader delivers it: free-text headers, a totals row, an empty
  row and an empty column.\<close>

definition raw_example :: dataframe where
  "raw_example =
     \<lparr>index = [0, 1, 2, 3],
      columns =
        [(''A'' @ [CHR 0xF1] @ ''o Adhesi'' @ [CHR 0xF3] @ ''n Establecimiento'',
            [StrV ''2011'', StrV ''2010'', NaN, StrV ''Total'']),
         (''Unnamed: 1'', [NaN, NaN, NaN, NaN]),
         (''Instalaciones adheridas'', [StrV ''5'', NaN, NaN, StrV ''11'']),
         (''Empresas adheridas'', [IntV 3, IntV 2, NaN, IntV 5])]\<rparr>"

text \<open>The two raw rows of the second scenario and the three rows of the third.\<close>

definition year_example :: dataframe where
  "year_example =
     \<lparr>index = [0, 1],
      columns =
        [(''year'', [StrV ''2010'', StrV ''Total'']),
         (''installations'', [StrV ''5'', StrV ''5'']),
         (''companies'', [StrV ''3'', StrV ''3''])]\<rparr>"

definition size_example :: dataframe where
  "size_example =
     \<lparr>index = [0, 1, 2],
      columns =
        [(''company_size'',
            [StrV (''PEQUE'' @ [CHR 0xD1] @ ''A''), StrV (''peque'' @ [CHR 0xF1] @ ''a''),
             StrV ''otra'']),
         (''companies'', [IntV 7, IntV 8, IntV 9])]\<rparr>"

definition allowed_sizes :: "string list" where
  "allowed_sizes =
     [''PEQUE'' @ [CHR 0xD1] @ ''A'', ''MICRO'', ''MEDIANA'', ''GRANDE'', ''SSPP'']"

definition example_library :: library where
  "example_library =
     \<lparr>lib_parse = parse_digits, lib_wrap = wrap_min, lib_float_str = no_float_str,
      lib_argsort = stable_argsort\<rparr>"

definition adhesion_by_year_mapping :: "string \<rightharpoonup> string" where
  "adhesion_by_year_mapping =
     [''ano_adhesion_establecimiento'' \<mapsto> ''year'',
      ''instalaciones_adheridas'' \<mapsto> ''installations'',
      ''empresas_adheridas'' \<mapsto> ''companies'']"

text \<open>A table of counts with a missing cell, a text that is no number and a float.\<close>

definition counts_example :: dataframe where
  "counts_example =
     \<lparr>index = [0, 1, 2],
      columns =
        [(''year'', [IntV 2010, IntV 2011, IntV 2012]),
         (''installations'', [StrV ''5'', NaN, StrV ''n/a'']),
         (''companies'', [FloatV (Finite (7 / 2)), IntV 2, NaN])]\<rparr>"

text \<open>A table of counts in which one count is the text \<open>inf\<close>.\<close>

definition inf_example :: dataframe where
  "inf_example =
     \<lparr>index = [0, 1],
      columns =
        [(''year'', [IntV 2010, IntV 2011]),
         (''installations'', [StrV ''5'', StrV ''inf''])]\<rparr>"


text \<open>Two by-year tables: 2015 has no certification row, 2012 no adhesion row.\<close>

definition adhesion_example :: dataframe where
  "adhesion_example =
     \<lparr>index = [0, 1],
      columns =
        [(''year'', [IntV 2010, IntV 2015]),
         (''installations'', [IntV 6, IntV 10]),
         (''companies'', [IntV 2, IntV 4])]\<rparr>"

definition certification_example :: dataframe where
  "certification_example =
     \<lparr>index = [0, 1],
      columns =
        [(''year'', [IntV 2012, IntV 2010]),
         (''installations'', [IntV 1, IntV 3]),
         (''companies'', [IntV 7, IntV 8])]\<rparr>"

section \<open>Lemmas on strings\<close>

lemma spec_collapse_runs_Cons:
  "spec_collapse_runs (c # x) =
     (if c = CHR ''_'' \<and> x \<noteq> [] \<and> hd x = CHR ''_'' then spec_collapse_runs x
      else c # spec_collapse_runs x)"
  by (cases x) simp_all

lemma py_replace_uu_starts:
  "(py_replace ''__'' ''_'' s \<noteq> [] \<and> hd (py_replace ''__'' ''_'' s) = CHR ''_'')
     \<longleftrightarrow> (s \<noteq> [] \<and> hd s = CHR ''_'')"
proof (cases s)
  case Nil
  then show ?thesis by simp
next
  case (Cons c t)
  show ?thesis
  proof (cases t)
    case Nil
    with Cons show ?thesis by simp
  next
    case (Cons d u)
    with \<open>s = c # t\<close> show ?thesis
      by (cases "c = CHR ''_''"; cases "d = CHR ''_''") simp_all
  qed
qed

lemma spec_collapse_runs_replace:
  "spec_collapse_runs (py_replace ''__'' ''_'' s) = spec_collapse_runs s"
proof (induction s rule: length_induct)
  case (1 s)
  show ?case
  proof (cases s)
    case Nil
    then show ?thesis by simp
  next
    case (Cons c t)
    note s = this
    show ?thesis
    proof (cases t)
      case Nil
      with s show ?thesis by simp
    next
      case (Cons d u)
      note t = this
      show ?thesis
      proof (cases "c = CHR ''_'' \<and> d = CHR ''_''")
        case True
        have ih: "spec_collapse_runs (py_replace ''__'' ''_'' u) = spec_collapse_runs u"
          using 1 s t by simp
        have "spec_collapse_runs (py_replace ''__'' ''_'' s)
                = spec_collapse_runs (CHR ''_'' # py_replace ''__'' ''_'' u)"
          using True s t by simp
        also have "\<dots> = spec_collapse_runs (CHR ''_'' # u)"
          using ih py_replace_uu_starts [of u]
          by (simp only: spec_collapse_runs_Cons [of _ "py_replace ''__'' ''_'' u"]
                spec_collapse_runs_Cons [of _ u])
        also have "\<dots> = spec_collapse_runs s"
          using True s t by simp
        finally show ?thesis .
      next
        case False
        have ih: "spec_collapse_runs (py_replace ''__'' ''_'' t) = spec_collapse_runs t"
          using 1 s by simp
        have "py_replace ''__'' ''_'' s = c # py_replace ''__'' ''_'' t"
          using False s t by (cases "c = CHR ''_''") simp_all
        then have "spec_collapse_runs (py_replace ''__'' ''_'' s)
                = spec_collapse_runs (c # py_replace ''__'' ''_'' t)"
          by simp
        also have "\<dots> = spec_collapse_runs (c # t)"
          using ih py_replace_uu_starts [of t]
          by (simp only: spec_collapse_runs_Cons [of _ "py_replace ''__'' ''_'' t"]
                spec_collapse_runs_Cons [of _ t])
        finally show ?thesis using s by simp
      qed
    qed
  qed
qed

lemma spec_collapse_runs_id: "\<not> py_in ''__'' s \<Longrightarrow> spec_collapse_runs s = s"
  by (induction s rule: spec_collapse_runs.induct) auto

lemma collapse_loop_runs: "collapse_loop s = spec_collapse_runs s"
proof (induction s rule: collapse_loop.induct)
  case (1 s)
  show ?case
  proof (cases "py_in ''__'' s")
    case True
    then have "collapse_loop s = collapse_loop (py_replace ''__'' ''_'' s)"
      by (subst collapse_loop.simps) simp
    also have "\<dots> = spec_collapse_runs (py_replace ''__'' ''_'' s)"
      using 1 True by simp
    finally show ?thesis by (simp add: spec_collapse_runs_replace)
  next
    case False
    then have "collapse_loop s = s"
      by (subst collapse_loop.simps) simp
    with False show ?thesis by (simp add: spec_collapse_runs_id)
  qed
qed

lemma fold_passes:
  "py_replace [CHR 0xF1] ''n'' (py_replace [CHR 0xFA] ''u'' (py_replace [CHR 0xF3] ''o''
     (py_replace [CHR 0xED] ''i'' (py_replace [CHR 0xE9] ''e''
       (py_replace [CHR 0xE1] ''a'' s))))) = map spec_fold_char s"
  by (simp add: spec_fold_char_def)

lemma separator_passes:
  "py_replace ''-'' ''_'' (py_replace '' '' ''_'' s) = spec_replace_separators s"
  by (simp add: spec_replace_separators_def)

lemma strip_underscores: "py_strip_chars ''_'' s = spec_strip_underscores s"
  by (simp add: py_strip_chars_def spec_strip_underscores_def)

section \<open>Lemmas on tables\<close>

lemma in_set_select:
  "x \<in> set (select keep xs) \<longleftrightarrow> (\<exists>i. i < length xs \<and> i < length keep \<and> keep ! i \<and> xs ! i = x)"
proof
  assume "x \<in> set (select keep xs)"
  then obtain b where "(b, x) \<in> set (zip keep xs)" "b"
    by (auto simp: select_def)
  then show "\<exists>i. i < length xs \<and> i < length keep \<and> keep ! i \<and> xs ! i = x"
    by (auto simp: set_zip)
next
  assume "\<exists>i. i < length xs \<and> i < length keep \<and> keep ! i \<and> xs ! i = x"
  then obtain i where i: "i < length xs" "i < length keep" "keep ! i" "xs ! i = x"
    by blast
  then have "(keep ! i, xs ! i) \<in> set (zip keep xs)"
    by (simp add: set_zip) blast
  with i have "(True, x) \<in> set (filter fst (zip keep xs))"
    by simp
  then have "snd (True, x) \<in> snd ` set (filter fst (zip keep xs))"
    by (rule imageI)
  then show "x \<in> set (select keep xs)"
    by (simp add: select_def)
qed

lemma list_ex_nth: "list_ex P xs \<longleftrightarrow> (\<exists>i < length xs. P (xs ! i))"
  unfolding list_ex_iff by (metis in_set_conv_nth)

lemma frame_ok_col: "frame_ok df \<Longrightarrow> nc \<in> set (columns df) \<Longrightarrow> length (snd nc) = nrows df"
  by (auto simp: frame_ok_def nrows_def list_all_iff)

lemma row_cells_mem: "nc \<in> set (columns df) \<Longrightarrow> snd nc ! i \<in> set (row_cells df i)"
  unfolding row_cells_def set_map by (rule imageI)

lemma row_mask_drop_columns:
  assumes "frame_ok df" "i < nrows df"
  shows "list_ex notna (row_cells (dropna_all_columns df) i) = list_ex notna (row_cells df i)"
proof
  assume "list_ex notna (row_cells (dropna_all_columns df) i)"
  then obtain nc where "nc \<in> set (columns df)" "notna (snd nc ! i)"
    by (auto simp: row_cells_def dropna_all_columns_def list_ex_iff)
  then have "snd nc ! i \<in> set (row_cells df i)"
    by (simp add: row_cells_mem)
  with \<open>notna (snd nc ! i)\<close> show "list_ex notna (row_cells df i)"
    unfolding list_ex_iff by blast
next
  assume "list_ex notna (row_cells df i)"
  then obtain nc where nc: "nc \<in> set (columns df)" "notna (snd nc ! i)"
    by (auto simp: row_cells_def list_ex_iff)
  then have "length (snd nc) = nrows df" using assms(1) by (simp add: frame_ok_col)
  with assms(2) nc have "list_ex notna (snd nc)"
    by (auto simp: list_ex_nth)
  with nc have "nc \<in> set (columns (dropna_all_columns df))"
    by (simp add: dropna_all_columns_def)
  then have "snd nc ! i \<in> set (row_cells (dropna_all_columns df) i)"
    by (rule row_cells_mem)
  with nc show "list_ex notna (row_cells (dropna_all_columns df) i)"
    unfolding list_ex_iff by blast
qed

lemma column_mask_drop_rows:
  assumes "frame_ok df" "nc \<in> set (columns df)"
  shows "list_ex notna (select (map (\<lambda>i. list_ex notna (row_cells df i)) [0..<nrows df]) (snd nc))
           = list_ex notna (snd nc)"
proof -
  have len: "length (snd nc) = nrows df" using assms by (rule frame_ok_col)
  show ?thesis
  proof
    assume "list_ex notna (select (map (\<lambda>i. list_ex notna (row_cells df i)) [0..<nrows df]) (snd nc))"
    then obtain x where "x \<in> set (select (map (\<lambda>i. list_ex notna (row_cells df i)) [0..<nrows df]) (snd nc))" "notna x"
      by (auto simp: list_ex_iff)
    then obtain i where "i < length (snd nc)" "snd nc ! i = x"
      unfolding in_set_select by blast
    with \<open>notna x\<close> show "list_ex notna (snd nc)"
      by (auto simp: list_ex_nth)
  next
    assume "list_ex notna (snd nc)"
    then obtain i where i: "i < nrows df" "notna (snd nc ! i)"
      using len by (auto simp: list_ex_nth)
    have "snd nc ! i \<in> set (row_cells df i)"
      using assms(2) by (rule row_cells_mem)
    with i have "list_ex notna (row_cells df i)"
      unfolding list_ex_iff by blast
    with i len have "snd nc ! i \<in> set (select (map (\<lambda>i. list_ex notna (row_cells df i)) [0..<nrows df]) (snd nc))"
      unfolding in_set_select by (intro exI [of _ i]) simp
    with i show "list_ex notna (select (map (\<lambda>i. list_ex notna (row_cells df i)) [0..<nrows df]) (snd nc))"
      unfolding list_ex_iff by blast
  qed
qed

lemma nrows_drop_columns: "nrows (dropna_all_columns df) = nrows df"
  by (simp add: nrows_def dropna_all_columns_def)

lemma select_conv:
  assumes "length keep = length xs"
  shows "select keep xs = map ((!) xs) (filter ((!) keep) [0..<length xs])"
proof -
  have "zip keep xs = map (\<lambda>i. (keep ! i, xs ! i)) [0..<length xs]"
    using assms by (intro nth_equalityI) simp_all
  then show ?thesis
    by (simp add: select_def filter_map comp_def)
qed

lemma rows_take_rows: "rows (take_rows p df) = map (row_at df) p"
proof (rule nth_equalityI)
  show "length (rows (take_rows p df)) = length (map (row_at df) p)"
    by (simp add: rows_def nrows_def take_rows_def)
next
  fix i assume "i < length (rows (take_rows p df))"
  then have i: "i < length p" by (simp add: rows_def nrows_def take_rows_def)
  then show "rows (take_rows p df) ! i = map (row_at df) p ! i"
    by (simp add: rows_def nrows_def take_rows_def row_at_def row_cells_def)
qed

lemma loc_mask_take_rows:
  assumes "frame_ok df" "length keep = nrows df"
  shows "loc_mask keep df = take_rows (filter ((!) keep) [0..<nrows df]) df"
proof -
  have "\<And>nc. nc \<in> set (columns df) \<Longrightarrow>
          select keep (snd nc) = map ((!) (snd nc)) (filter ((!) keep) [0..<nrows df])"
    using assms by (simp add: select_conv frame_ok_col)
  moreover have "select keep (index df) = map ((!) (index df)) (filter ((!) keep) [0..<nrows df])"
    using assms(2) by (simp add: select_conv nrows_def)
  ultimately show ?thesis
    by (simp add: loc_mask_def take_rows_def)
qed

lemma rows_loc_mask:
  assumes "frame_ok df" "length keep = nrows df"
  shows "rows (loc_mask keep df) = map (row_at df) (filter ((!) keep) [0..<nrows df])"
  using assms by (simp add: loc_mask_take_rows rows_take_rows)

lemma rows_loc_mask_filter:
  assumes "frame_ok df" "length keep = nrows df"
    and "\<And>i. i < nrows df \<Longrightarrow> keep ! i = Q (row_at df i)"
  shows "rows (loc_mask keep df) = filter Q (rows df)"
proof -
  have *: "filter ((!) keep) [0..<nrows df] = filter (\<lambda>i. Q (row_at df i)) [0..<nrows df]"
    by (rule filter_cong) (simp_all add: assms(3))
  have "rows (loc_mask keep df) = map (row_at df) (filter (\<lambda>i. Q (row_at df i)) [0..<nrows df])"
    using assms(1,2) by (simp add: rows_loc_mask *)
  also have "\<dots> = filter Q (rows df)"
    by (simp add: rows_def filter_map comp_def)
  finally show ?thesis .
qed

lemma filter_key_distinct:
  "distinct (map fst xs) \<Longrightarrow> k \<in> set (map fst xs) \<Longrightarrow>
     filter (\<lambda>nc. fst nc = k) xs = [xs ! length (takeWhile (\<lambda>n. n \<noteq> k) (map fst xs))]"
proof (induction xs)
  case Nil
  then show ?case by simp
next
  case (Cons x xs)
  show ?case
  proof (cases "fst x = k")
    case True
    then have "k \<notin> set (map fst xs)" using Cons.prems(1) by auto
    then have "filter (\<lambda>nc. fst nc = k) xs = []"
      by (auto simp: filter_empty_conv)
    with True show ?thesis by simp
  next
    case False
    with Cons show ?thesis by auto
  qed
qed

lemma getitem_unique:
  assumes "distinct (names df)" "column \<in> set (names df)"
  shows "getitem bad df column = Inr (snd (columns df ! column_pos df column))"
  using filter_key_distinct [of "columns df" column] assms
  by (simp add: getitem_def names_def column_pos_def)

lemma takeWhile_pos:
  "k \<in> set ns \<Longrightarrow>
     length (takeWhile (\<lambda>n. n \<noteq> k) ns) < length ns \<and>
     ns ! length (takeWhile (\<lambda>n. n \<noteq> k) ns) = k"
  by (induction ns) auto

lemma column_pos_less:
  "column \<in> set (names df) \<Longrightarrow> column_pos df column < ncols df"
  using takeWhile_pos [of column "names df"]
  by (simp add: column_pos_def ncols_def names_def)

lemma column_pos_name:
  "column \<in> set (names df) \<Longrightarrow> fst (columns df ! column_pos df column) = column"
proof -
  assume "column \<in> set (names df)"
  then have a: "column_pos df column < length (names df)"
    and b: "names df ! column_pos df column = column"
    using takeWhile_pos [of column "names df"] by (simp_all add: column_pos_def)
  from a have "names df ! column_pos df column = fst (columns df ! column_pos df column)"
    unfolding names_def by (simp only: length_map nth_map)
  with b show ?thesis by simp
qed

lemma names_loc_mask [simp]: "names (loc_mask keep df) = names df"
  by (simp add: names_def loc_mask_def comp_def)

lemma getitem_column_cells:
  "distinct (names df) \<Longrightarrow> column \<in> set (names df) \<Longrightarrow>
     getitem bad df column = Inr (column_cells df column)"
  by (simp add: getitem_unique column_cells_def)

lemma length_column_cells:
  "frame_ok df \<Longrightarrow> column \<in> set (names df) \<Longrightarrow> length (column_cells df column) = nrows df"
  unfolding column_cells_def
  by (rule frame_ok_col) (simp_all add: column_pos_less [unfolded ncols_def])

lemma cell_in_row_at:
  "column \<in> set (names df) \<Longrightarrow> cell_in df column (row_at df i) = column_cells df column ! i"
  using column_pos_less [of column df]
  by (simp add: cell_in_def row_at_def row_cells_def column_cells_def ncols_def)

lemma filter_by_column:
  assumes "frame_ok df" "column \<in> set (names df)"
  shows "rows (loc_mask (map P (column_cells df column)) df)
           = filter (\<lambda>r. P (cell_in df column r)) (rows df)"
  using assms
  by (intro rows_loc_mask_filter) (simp_all add: length_column_cells cell_in_row_at)

lemma to_numeric_notna:
  "(to_numeric parse c \<noteq> None) =
     (case c of NaN \<Rightarrow> False | StrV s \<Rightarrow> parse s \<noteq> None | _ \<Rightarrow> True)"
  by (cases c) (simp_all add: to_numeric_def)

lemma make_value_filter_alt:
  "make_value_filter float_str column allowed_values df =
     (case getitem AttributeError df column of
        Inl e \<Rightarrow> Inl e
      | Inr series \<Rightarrow>
          Inr (loc_mask (map (\<lambda>c. py_lower (astype_str float_str c)
                                  \<in> set (map py_lower allowed_values)) series) df))"
  by (simp add: make_value_filter_def comp_def split: sum.splits)

lemma getitem_missing:
  "column \<notin> set (names df) \<Longrightarrow> getitem bad df column = Inl (KeyError [column])"
proof -
  assume "column \<notin> set (names df)"
  then have "filter (\<lambda>nc. fst nc = column) (columns df) = []"
    by (auto simp: filter_empty_conv names_def)
  then show ?thesis by (simp add: getitem_def)
qed

lemma rename_columns_names:
  "names (rename_columns mapping df)
     = map (\<lambda>n. case mapping n of None \<Rightarrow> n | Some t \<Rightarrow> t) (names df)"
  by (simp add: names_def rename_columns_def comp_def)

lemma rename_columns_noop:
  assumes "\<And>n. n \<in> set (names df) \<Longrightarrow> mapping n = None"
  shows "rename_columns mapping df = df"
proof -
  have "map (\<lambda>nc. (case mapping (fst nc) of None \<Rightarrow> fst nc | Some t \<Rightarrow> t, snd nc)) (columns df)
          = map (\<lambda>nc. nc) (columns df)"
    by (rule map_cong) (auto simp: assms names_def)
  then show ?thesis by (simp add: rename_columns_def)
qed

lemma setitem_existing:
  "column \<in> set (names df) \<Longrightarrow>
     setitem df column vs
       = df\<lparr>columns := map (\<lambda>nc. if fst nc = column then (fst nc, vs) else nc) (columns df)\<rparr>"
  by (simp add: setitem_def)

lemma names_setitem:
  "column \<in> set (names df) \<Longrightarrow> names (setitem df column vs) = names df"
  by (simp add: setitem_existing names_def comp_def if_distrib cong: if_cong)

lemma index_setitem [simp]: "index (setitem df column vs) = index df"
  by (simp add: setitem_def)

lemma column_pos_cong: "names df' = names df \<Longrightarrow> column_pos df' n = column_pos df n"
  by (simp add: column_pos_def)

lemma column_cells_setitem:
  assumes "column \<in> set (names df)" "n \<in> set (names df)"
  shows "column_cells (setitem df column vs) n = (if n = column then vs else column_cells df n)"
proof -
  have p: "column_pos (setitem df column vs) n = column_pos df n"
    using assms(1) by (intro column_pos_cong names_setitem)
  have l: "column_pos df n < length (columns df)"
    using column_pos_less [OF assms(2)] by (simp add: ncols_def)
  have f: "fst (columns df ! column_pos df n) = n"
    using assms(2) by (rule column_pos_name)
  have "columns (setitem df column vs) ! column_pos df n
          = (if fst (columns df ! column_pos df n) = column
             then (fst (columns df ! column_pos df n), vs)
             else columns df ! column_pos df n)"
    using l by (simp add: setitem_existing [OF assms(1)])
  then have "snd (columns (setitem df column vs) ! column_pos df n)
          = (if n = column then vs else snd (columns df ! column_pos df n))"
    unfolding f by simp
  then show ?thesis
    unfolding column_cells_def p .
qed

lemma frame_ok_setitem:
  assumes "frame_ok df" "column \<in> set (names df)" "length vs = nrows df"
  shows "frame_ok (setitem df column vs)"
  using assms
  by (auto simp: setitem_existing frame_ok_def nrows_def list_all_iff)

lemma map_nth_filter: "map ((!) k) (filter (\<lambda>i. P (k ! i)) [0..<length k]) = filter P k"
proof -
  have "filter P k = filter P (map ((!) k) [0..<length k])"
    by (simp add: map_nth)
  also have "\<dots> = map ((!) k) (filter (\<lambda>i. P (k ! i)) [0..<length k])"
    by (simp add: filter_map comp_def)
  finally show ?thesis by simp
qed

lemma keys_at_positions: "map ((!) k) (non_nan_positions k asc) = sort_keys k asc"
  by (simp add: non_nan_positions_def sort_keys_def map_nth_filter rev_map [symmetric])

lemma length_positions: "length (non_nan_positions k asc) = length (sort_keys k asc)"
  by (metis keys_at_positions length_map)

lemma nargsort_alt:
  "nargsort argsort k asc =
     (if asc then map ((!) (non_nan_positions k asc)) (argsort (sort_keys k asc))
      else rev (map ((!) (non_nan_positions k asc)) (argsort (sort_keys k asc))))
     @ filter (\<lambda>i. \<not> notna (k ! i)) [0..<length k]"
  by (simp add: nargsort_def Let_def non_nan_positions_def sort_keys_def map_nth_filter
        rev_map [symmetric])

lemma mset_positions:
  "mset (non_nan_positions k asc) = mset (filter (\<lambda>i. notna (k ! i)) [0..<length k])"
  by (simp add: non_nan_positions_def)

lemma mset_map_nth_perm:
  assumes "mset a = mset [0..<length J]"
  shows "mset (map ((!) J) a) = mset J"
proof -
  have "mset (map ((!) J) a) = image_mset ((!) J) (mset a)" by simp
  also have "\<dots> = image_mset ((!) J) (mset [0..<length J])" by (simp add: assms)
  also have "\<dots> = mset (map ((!) J) [0..<length J])" by simp
  also have "\<dots> = mset J" by (simp add: map_nth)
  finally show ?thesis .
qed

lemma mset_nargsort:
  assumes "argsort_ok argsort (sort_keys k asc)"
  shows "mset (nargsort argsort k asc) = mset [0..<length k]"
proof -
  let ?J = "non_nan_positions k asc"
  let ?nan = "filter (\<lambda>i. \<not> notna (k ! i)) [0..<length k]"
  have a: "mset (argsort (sort_keys k asc)) = mset [0..<length ?J]"
    using assms by (simp add: argsort_ok_def length_positions)
  have J: "mset (map ((!) ?J) (argsort (sort_keys k asc))) = mset ?J"
    using a by (rule mset_map_nth_perm)
  have "mset (nargsort argsort k asc)
          = mset (map ((!) ?J) (argsort (sort_keys k asc))) + mset ?nan"
    by (cases asc) (simp_all add: nargsort_alt)
  also have "\<dots> = mset (filter (\<lambda>i. notna (k ! i)) [0..<length k]) + mset ?nan"
    by (simp only: J mset_positions)
  also have "\<dots> = mset [0..<length k]"
    by (simp only: mset_filter multiset_partition [symmetric])
  finally show ?thesis .
qed

lemma length_nargsort:
  "argsort_ok argsort (sort_keys k asc) \<Longrightarrow> length (nargsort argsort k asc) = length k"
  by (metis mset_nargsort size_mset length_upt diff_zero)

lemma filter_single_first:
  "filter P xs = [x] \<Longrightarrow> xs ! length (takeWhile (\<lambda>y. \<not> P y) xs) = x \<and> P x \<and> x \<in> set xs"
  by (induction xs) (auto split: if_splits)

lemma getitem_Inr:
  assumes "getitem bad df column = Inr k"
  shows "column \<in> set (names df) \<and> k = column_cells df column"
proof -
  from assms obtain nc where f: "filter (\<lambda>nc. fst nc = column) (columns df) = [nc]"
    and k: "k = snd nc"
    by (auto simp: getitem_def split: list.splits)
  from filter_single_first [OF f]
  have n: "columns df ! length (takeWhile (\<lambda>y. fst y \<noteq> column) (columns df)) = nc"
    and c: "fst nc = column" and m: "nc \<in> set (columns df)"
    by simp_all
  have "column_pos df column = length (takeWhile (\<lambda>nc. fst nc \<noteq> column) (columns df))"
    by (simp add: column_pos_def names_def takeWhile_map comp_def)
  with n have "columns df ! column_pos df column = nc" by simp
  moreover have "column \<in> set (names df)"
    using c m by (auto simp: names_def)
  ultimately show ?thesis using k by (simp add: column_cells_def)
qed

lemma length_select_le: "length (select keep xs) \<le> length xs"
proof -
  have "length (filter fst (zip keep xs)) \<le> length (zip keep xs)" by (rule length_filter_le)
  then show ?thesis by (simp add: select_def)
qed

lemma nrows_loc_mask_le: "nrows (loc_mask keep df) \<le> nrows df"
  by (simp add: nrows_def loc_mask_def length_select_le)

lemma ncols_loc_mask: "ncols (loc_mask keep df) = ncols df"
  by (simp add: ncols_def loc_mask_def)

lemma enforce_integer_columns_index:
  "enforce_integer_columns parse wrap df cols = Inr df' \<Longrightarrow> index df' = index df"
proof (induction cols arbitrary: df)
  case Nil
  then show ?case by simp
next
  case (Cons c cols)
  then show ?case by (auto split: sum.splits)
qed

lemma sort_by_column_index:
  assumes "frame_ok df" "argsort_ok argsort (sort_keys (column_cells df column) asc)"
    and "sort_by_column argsort df column asc = Inr df'"
  shows "index df' = [0..<nrows df]"
proof -
  from assms(3) obtain d where d: "sort_values argsort df column asc = Inr d"
    and r: "df' = reset_index d"
    by (auto simp: sort_by_column_def split: sum.splits)
  from d obtain k where g: "getitem ValueError df column = Inr k"
    and t: "d = take_rows (nargsort argsort k asc) df"
    by (auto simp: sort_values_def split: sum.splits if_splits)
  from getitem_Inr [OF g] have c: "column \<in> set (names df)" and k: "k = column_cells df column"
    by simp_all
  have "length (nargsort argsort k asc) = length k"
    using assms(2) k by (simp add: length_nargsort)
  also have "\<dots> = nrows df" using assms(1) c k by (simp add: length_column_cells)
  finally show ?thesis using r t by (simp add: reset_index_def take_rows_def)
qed

lemma counts_example_sorted:
  "apply_transformation example_library (Sorter ''year'' False) counts_example
     = Inr \<lparr>index = [0, 1, 2],
            columns =
              [(''year'', [IntV 2012, IntV 2011, IntV 2010]),
               (''installations'', [StrV ''n/a'', NaN, StrV ''5'']),
               (''companies'', [NaN, IntV 2, FloatV (Finite (7 / 2))])]\<rparr>"
  by (simp add: make_sorter_def sort_by_column_def sort_values_def getitem_def
        counts_example_def example_library_def comparable_def is_num_def notna_def
        nargsort_def Let_def stable_argsort_def sort_by_def num_val_def take_rows_def
        reset_index_def upt_rec)

lemma counts_example_routine_ok:
  "routine_ok example_library (Sorter ''year'' False) counts_example"
  by (simp add: routine_ok_def argsort_ok_def sort_keys_def column_cells_def column_pos_def
        names_def counts_example_def example_library_def notna_def stable_argsort_def
        sort_by_def num_val_def upt_rec)

lemma finite_cell_iff: "finite_cell parse c = is_finite (fillna0 (to_numeric parse c))"
  by (cases c) (simp_all add: finite_cell_def to_numeric_def fillna0_def is_finite_def
        split: option.splits)

lemma in_int64_zero [simp]: "in_int64 0"
  by (simp add: in_int64_def)

lemma trunc_zero_of_int [simp]: "trunc_zero (of_int i) = i"
  by (simp add: trunc_zero_def)

lemma cast_int64_zero [simp]: "cast_int64 wrap 0 = 0"
  using trunc_zero_of_int [of 0] by (simp add: cast_int64_def)

lemma cast_int64_in_range: "in_int64 (trunc_zero q) \<Longrightarrow> cast_int64 wrap q = trunc_zero q"
  by (simp add: cast_int64_def)

lemma int_cell_cases:
  "int_cell parse wrap c =
     IntV (case c of
             NaN \<Rightarrow> 0
           | IntV i \<Rightarrow> cast_int64 wrap (of_int i)
           | FloatV x \<Rightarrow> cast_int64 wrap (finite_value x)
           | StrV s \<Rightarrow> (case parse s of None \<Rightarrow> 0
                        | Some x \<Rightarrow> cast_int64 wrap (finite_value x)))"
  by (cases c) (simp_all add: int_cell_def to_numeric_def fillna0_def finite_value_def
        split: option.splits)

lemma is_int_int_cell [simp]: "is_int (int_cell parse wrap c)"
  by (simp add: int_cell_def is_int_def)

lemma to_int_series_finite:
  "list_all (finite_cell parse) series \<Longrightarrow>
     to_int_series parse wrap series = Inr (map (int_cell parse wrap) series)"
  by (simp add: to_int_series_def astype_int_def list_all_iff finite_cell_iff int_cell_def
        comp_def)

lemma to_int_series_infinite:
  "\<not> list_all (finite_cell parse) series \<Longrightarrow> to_int_series parse wrap series = Inl ValueError"
  by (simp add: to_int_series_def astype_int_def list_all_iff finite_cell_iff)

lemma enforce_integer_columns_result:
  assumes "frame_ok df" "distinct (names df)" "distinct cols" "set cols \<subseteq> set (names df)"
    and "\<forall>n \<in> set cols. list_all (finite_cell parse) (column_cells df n)"
  shows "\<exists>df'. enforce_integer_columns parse wrap df cols = Inr df' \<and>
           index df' = index df \<and> names df' = names df \<and> frame_ok df' \<and>
           (\<forall>n \<in> set (names df). column_cells df' n =
              (if n \<in> set cols then map (int_cell parse wrap) (column_cells df n)
               else column_cells df n))"
  using assms
proof (induction cols arbitrary: df)
  case Nil
  then show ?case by simp
next
  case (Cons c cols)
  let ?vs = "map (int_cell parse wrap) (column_cells df c)"
  let ?df1 = "setitem df c ?vs"
  have c: "c \<in> set (names df)" using Cons.prems(4) by simp
  have g: "getitem TypeError df c = Inr (column_cells df c)"
    using Cons.prems(2) c by (rule getitem_column_cells)
  have t: "to_int_series parse wrap (column_cells df c) = Inr ?vs"
    using Cons.prems(5) by (simp add: to_int_series_finite)
  have len: "length ?vs = nrows df"
    using Cons.prems(1) c by (simp add: length_column_cells)
  have n1: "names ?df1 = names df" using c by (rule names_setitem)
  have ok1: "frame_ok ?df1" using Cons.prems(1) c len by (rule frame_ok_setitem)
  have cc: "\<And>m. m \<in> set (names df) \<Longrightarrow>
              column_cells ?df1 m = (if m = c then ?vs else column_cells df m)"
    using c by (rule column_cells_setitem)
  have fin1: "\<forall>n \<in> set cols. list_all (finite_cell parse) (column_cells ?df1 n)"
  proof
    fix m assume m: "m \<in> set cols"
    then have "m \<noteq> c" using Cons.prems(3) by auto
    moreover have "m \<in> set (names df)" using m Cons.prems(4) by auto
    ultimately have "column_cells ?df1 m = column_cells df m" by (simp add: cc)
    with m Cons.prems(5) show "list_all (finite_cell parse) (column_cells ?df1 m)" by simp
  qed
  have "\<exists>df'. enforce_integer_columns parse wrap ?df1 cols = Inr df' \<and>
           index df' = index ?df1 \<and> names df' = names ?df1 \<and> frame_ok df' \<and>
           (\<forall>n \<in> set (names ?df1). column_cells df' n =
              (if n \<in> set cols then map (int_cell parse wrap) (column_cells ?df1 n)
               else column_cells ?df1 n))"
    using ok1 n1 fin1 Cons.prems by (intro Cons.IH) simp_all
  then obtain df' where r: "enforce_integer_columns parse wrap ?df1 cols = Inr df'"
    and i: "index df' = index ?df1" and n: "names df' = names ?df1" and ok: "frame_ok df'"
    and v: "\<forall>n \<in> set (names ?df1). column_cells df' n =
              (if n \<in> set cols then map (int_cell parse wrap) (column_cells ?df1 n)
               else column_cells ?df1 n)"
    by blast
  have "\<forall>n \<in> set (names df). column_cells df' n =
              (if n \<in> set (c # cols) then map (int_cell parse wrap) (column_cells df n)
               else column_cells df n)"
  proof
    fix m assume m: "m \<in> set (names df)"
    show "column_cells df' m =
              (if m \<in> set (c # cols) then map (int_cell parse wrap) (column_cells df m)
               else column_cells df m)"
    proof (cases "m = c")
      case True
      then have "m \<notin> set cols" using Cons.prems(3) by simp
      with v m n1 have "column_cells df' m = column_cells ?df1 m" by simp
      with True cc [OF m] show ?thesis by simp
    next
      case False
      with v m n1 cc [OF m] show ?thesis by simp
    qed
  qed
  with r i n ok n1 g t show ?case by simp
qed

lemma make_integer_column_enforce:
  "make_integer_column parse wrap column df = enforce_integer_columns parse wrap df [column]"
  by (simp add: make_integer_column_def split: sum.splits)

lemma counts_example_coerced:
  "enforce_integer_columns parse_digits wrap_min counts_example [''installations'', ''companies'']
     = Inr \<lparr>index = [0, 1, 2],
            columns =
              [(''year'', [IntV 2010, IntV 2011, IntV 2012]),
               (''installations'', [IntV 5, IntV 0, IntV 0]),
               (''companies'', [IntV 3, IntV 2, IntV 0])]\<rparr>"
proof -
  have "\<lfloor>7 / 2 :: rat\<rfloor> = 3"
    by (rule floor_unique) simp_all
  then show ?thesis
    by (simp add: counts_example_def getitem_def setitem_def names_def to_int_series_def
          astype_int_def to_numeric_def fillna0_def is_finite_def finite_value_def
          cast_int64_def trunc_zero_def in_int64_def parse_digits_def digit_of_def)
qed

lemma counts_example_finite:
  "\<forall>n \<in> set [''installations'', ''companies''].
      list_all (finite_cell parse_digits) (column_cells counts_example n)"
  by (simp add: finite_cell_def is_finite_def column_cells_def column_pos_def names_def
        counts_example_def parse_digits_def digit_of_def)















lemma notna_iff: "notna c \<longleftrightarrow> c \<noteq> NaN"
  by (simp add: notna_def)












lemma mset_insort_by: "mset (insort_by le x xs) = add_mset x (mset xs)"
  by (induction xs) simp_all

lemma mset_sort_by: "mset (sort_by le xs) = mset xs"
  unfolding sort_by_def by (induction xs) (simp_all add: mset_insort_by)

lemma set_sort_by: "set (sort_by le xs) = set xs"
  by (metis mset_sort_by set_mset_mset)

lemma distinct_sort_by: "distinct (sort_by le xs) = distinct xs"
  by (metis mset_sort_by distinct_count_atmost_1 set_mset_mset count_mset)

lemma set_positions: "set (positions k ks) = {i. i < length ks \<and> ks ! i = k}"
  by (auto simp: positions_def)

lemma positions_empty: "positions k ks = [] \<longleftrightarrow> k \<notin> set ks"
  by (auto simp: positions_def filter_empty_conv in_set_conv_nth)

lemma positions_distinct:
  assumes "distinct ks" "k \<in> set ks"
  shows "\<exists>i. positions k ks = [i]"
proof -
  from assms(2) obtain i where i: "i < length ks" "ks ! i = k"
    by (auto simp: in_set_conv_nth)
  have "\<And>j. j < length ks \<Longrightarrow> (ks ! j = k) = (j = i)"
    using assms(1) i by (auto simp: nth_eq_iff_index_eq)
  then have "filter (\<lambda>j. ks ! j = k) [0..<length ks] = filter (\<lambda>j. j = i) [0..<length ks]"
    by (intro filter_cong) simp_all
  also have "\<dots> = [i]"
    using i(1) by (induction ks rule: rev_induct) (auto simp: less_Suc_eq filter_empty_conv)
  finally show ?thesis by (auto simp: positions_def)
qed

lemma join_group_ok:
  assumes "pr \<in> set (join_group lk rk k)"
  shows "pair_ok lk rk pr \<and> key_value lk rk pr = k"
proof (cases "positions k rk = []")
  case True
  then have nr: "k \<notin> set rk" by (simp add: positions_empty)
  from True assms obtain i where "pr = (Some i, None)" "i \<in> set (positions k lk)"
    by (auto simp: join_group_def)
  with nr show ?thesis
    by (auto simp: pair_ok_def key_value_def set_positions)
next
  case False
  note r = this
  show ?thesis
  proof (cases "positions k lk = []")
    case True
    then have nl: "k \<notin> set lk" by (simp add: positions_empty)
    from True r assms obtain j where "pr = (None, Some j)" "j \<in> set (positions k rk)"
      by (auto simp: join_group_def)
    with nl show ?thesis
      by (auto simp: pair_ok_def key_value_def set_positions)
  next
    case False
    with r assms obtain i j where "pr = (Some i, Some j)"
      "i \<in> set (positions k lk)" "j \<in> set (positions k rk)"
      by (auto simp: join_group_def)
    then show ?thesis
      by (auto simp: pair_ok_def key_value_def set_positions)
  qed
qed

lemma join_group_nonempty:
  assumes "k \<in> set lk \<union> set rk"
  shows "join_group lk rk k \<noteq> []"
proof -
  have "positions k lk \<noteq> [] \<or> positions k rk \<noteq> []"
    using assms by (auto simp: positions_empty)
  then show ?thesis
    by (auto simp: join_group_def Let_def)
qed

lemma join_group_single:
  assumes "distinct lk" "distinct rk" "k \<in> set lk \<union> set rk"
  shows "\<exists>pr. join_group lk rk k = [pr]"
proof -
  have l: "positions k lk = [] \<or> (\<exists>i. positions k lk = [i])"
    using positions_distinct [OF assms(1)] positions_empty by blast
  have r: "positions k rk = [] \<or> (\<exists>j. positions k rk = [j])"
    using positions_distinct [OF assms(2)] positions_empty by blast
  have "positions k lk \<noteq> [] \<or> positions k rk \<noteq> []"
    using assms(3) by (auto simp: positions_empty)
  with l r show ?thesis
    by (auto simp: join_group_def Let_def)
qed

lemma join_pairs_ok:
  "pr \<in> set (join_pairs lk rk) \<Longrightarrow> pair_ok lk rk pr"
  by (auto simp: join_pairs_def dest: join_group_ok)

lemma join_keys_set:
  "set (map (key_value lk rk) (join_pairs lk rk)) = set lk \<union> set rk"
proof
  show "set (map (key_value lk rk) (join_pairs lk rk)) \<subseteq> set lk \<union> set rk"
  proof
    fix x assume "x \<in> set (map (key_value lk rk) (join_pairs lk rk))"
    then obtain pr k where "k \<in> set (sort_by cell_le (remdups (lk @ rk)))"
      "pr \<in> set (join_group lk rk k)" "x = key_value lk rk pr"
      by (auto simp: join_pairs_def)
    then show "x \<in> set lk \<union> set rk"
      using join_group_ok [of pr lk rk k] by (simp add: set_sort_by)
  qed
next
  show "set lk \<union> set rk \<subseteq> set (map (key_value lk rk) (join_pairs lk rk))"
  proof
    fix k assume k: "k \<in> set lk \<union> set rk"
    then obtain pr where pr: "pr \<in> set (join_group lk rk k)"
      using join_group_nonempty [OF k] by (cases "join_group lk rk k") auto
    then have "key_value lk rk pr = k" using join_group_ok by blast
    moreover have "pr \<in> set (join_pairs lk rk)"
      using pr k by (auto simp: join_pairs_def set_sort_by)
    ultimately show "k \<in> set (map (key_value lk rk) (join_pairs lk rk))"
      by force
  qed
qed

lemma concat_singletons: "(\<And>x. x \<in> set xs \<Longrightarrow> f x = [x]) \<Longrightarrow> concat (map f xs) = xs"
  by (induction xs) simp_all

lemma join_keys_distinct:
  assumes "distinct lk" "distinct rk"
  shows "distinct (map (key_value lk rk) (join_pairs lk rk))"
proof -
  let ?U = "sort_by cell_le (remdups (lk @ rk))"
  have U: "set ?U = set lk \<union> set rk" by (simp add: set_sort_by)
  have one: "\<And>k. k \<in> set ?U \<Longrightarrow> map (key_value lk rk) (join_group lk rk k) = [k]"
  proof -
    fix k assume "k \<in> set ?U"
    then have k: "k \<in> set lk \<union> set rk" using U by simp
    from join_group_single [OF assms k] obtain pr where pr: "join_group lk rk k = [pr]"
      by blast
    then have "key_value lk rk pr = k" using join_group_ok [of pr lk rk k] by simp
    with pr show "map (key_value lk rk) (join_group lk rk k) = [k]" by simp
  qed
  have "map (key_value lk rk) (join_pairs lk rk)
          = concat (map (\<lambda>k. map (key_value lk rk) (join_group lk rk k)) ?U)"
    by (simp add: join_pairs_def map_concat comp_def)
  also have "\<dots> = ?U" using one by (rule concat_singletons)
  finally show ?thesis by (simp add: distinct_sort_by)
qed

lemma three_columns:
  assumes "names df = [n1, n2, n3]"
  shows "\<exists>x1 x2 x3. columns df = [(n1, x1), (n2, x2), (n3, x3)]"
proof -
  from assms obtain c1 c2 c3 where c: "columns df = [c1, c2, c3]"
    and f: "fst c1 = n1" "fst c2 = n2" "fst c3 = n3"
    by (auto simp: names_def map_eq_Cons_conv)
  have "c1 = (n1, snd c1)" "c2 = (n2, snd c2)" "c3 = (n3, snd c3)"
    using f by (simp_all add: prod_eq_iff)
  with c show ?thesis by metis
qed

lemma length_take_opt [simp]: "length (take_opt p c) = length p"
  by (simp add: take_opt_def)

lemma take_opt_None: "j < length p \<Longrightarrow> p ! j = None \<Longrightarrow> take_opt p c ! j = NaN"
  by (simp add: take_opt_def)

lemma finite_cell_upcast: "finite_cell parse (upcast x) = finite_cell parse x"
  by (cases x) (simp_all add: upcast_def finite_cell_def is_finite_def)

lemma finite_cell_NaN [simp]: "finite_cell parse NaN"
  by (simp add: finite_cell_def)

lemma finite_take_opt:
  assumes "list_all (finite_cell parse) c"
    and "\<And>i. Some i \<in> set p \<Longrightarrow> i < length c"
  shows "list_all (finite_cell parse) (take_opt p c)"
proof -
  have "\<And>oi. oi \<in> set p \<Longrightarrow>
          finite_cell parse (case oi of None \<Rightarrow> NaN | Some i \<Rightarrow> upcast (c ! i)) \<and>
          finite_cell parse (case oi of None \<Rightarrow> NaN | Some i \<Rightarrow> c ! i)"
  proof -
    fix oi assume oi: "oi \<in> set p"
    show "finite_cell parse (case oi of None \<Rightarrow> NaN | Some i \<Rightarrow> upcast (c ! i)) \<and>
          finite_cell parse (case oi of None \<Rightarrow> NaN | Some i \<Rightarrow> c ! i)"
    proof (cases oi)
      case None
      then show ?thesis by simp
    next
      case (Some i)
      with oi assms(2) have "i < length c" by simp
      with assms(1) have "finite_cell parse (c ! i)" by (simp add: list_all_length)
      with Some show ?thesis by (simp add: finite_cell_upcast)
    qed
  qed
  then show ?thesis by (simp add: take_opt_def list_all_iff)
qed

lemma int_cell_NaN [simp]: "int_cell parse wrap NaN = IntV 0"
  by (simp add: int_cell_cases)

lemma int_cell_int64: "int64_cell c \<Longrightarrow> int_cell parse wrap c = c"
  by (cases c) (simp_all add: int64_cell_def int_cell_cases cast_int64_def)

lemma int64_cell_finite: "int64_cell c \<Longrightarrow> finite_cell parse c"
  by (cases c) (simp_all add: int64_cell_def finite_cell_def)

lemma int64_cell_notna: "int64_cell c \<Longrightarrow> notna c"
  by (cases c) (simp_all add: int64_cell_def notna_def)

lemma int64_cell_is_num: "int64_cell c \<Longrightarrow> is_num c"
  by (cases c) (simp_all add: int64_cell_def is_num_def)

lemma join_keys_int64:
  assumes "list_all int64_cell lk" "list_all int64_cell rk"
  shows "list_all int64_cell (map (key_value lk rk) (join_pairs lk rk))"
proof -
  have "set (map (key_value lk rk) (join_pairs lk rk)) = set lk \<union> set rk"
    by (rule join_keys_set)
  with assms show ?thesis unfolding list_all_iff by blast
qed

lemma join_pairs_left_bound:
  "Some i \<in> set (map fst (join_pairs lk rk)) \<Longrightarrow> i < length lk"
proof -
  assume "Some i \<in> set (map fst (join_pairs lk rk))"
  then obtain pr where pr: "pr \<in> set (join_pairs lk rk)" "fst pr = Some i" by auto
  from join_pairs_ok [OF pr(1)] pr(2) show ?thesis
    by (cases pr) (auto simp: pair_ok_def split: option.splits)
qed

lemma join_pairs_right_bound:
  "Some j \<in> set (map snd (join_pairs lk rk)) \<Longrightarrow> j < length rk"
proof -
  assume "Some j \<in> set (map snd (join_pairs lk rk))"
  then obtain pr where pr: "pr \<in> set (join_pairs lk rk)" "snd pr = Some j" by auto
  from join_pairs_ok [OF pr(1)] pr(2) show ?thesis
    by (cases pr) (auto simp: pair_ok_def split: option.splits)
qed

lemma absent_right:
  assumes "pr \<in> set (join_pairs lk rk)" "key_value lk rk pr \<notin> set rk"
  shows "snd pr = None"
  using join_pairs_ok [OF assms(1)] assms(2)
  by (cases pr) (auto simp: pair_ok_def key_value_def split: option.splits)

lemma absent_left:
  assumes "pr \<in> set (join_pairs lk rk)" "key_value lk rk pr \<notin> set lk"
  shows "fst pr = None"
proof (cases "fst pr")
  case None
  then show ?thesis .
next
  case (Some i)
  then have "i < length lk" and "key_value lk rk pr = lk ! i"
    using join_pairs_ok [OF assms(1)]
    by (cases pr; auto simp: pair_ok_def key_value_def split: option.splits)+
  then have "key_value lk rk pr \<in> set lk" by simp
  with assms(2) show ?thesis by simp
qed

section \<open>Results on the column-name normaliser\<close>

text \<open>
  Claim C5. For every raw header, \<open>to_snake\<close> computes exactly the chain of the
  specification: trim the surrounding whitespace, lowercase, turn every space and hyphen
  into an underscore, fold the five acute-accented vowels and the n with tilde to ASCII,
  collapse every run of underscores into one, strip the underscores at both ends; every
  other character is left as it is. The header "A\~no Adhesi\'on Establecimiento" becomes
  "ano_adhesion_establecimiento".
\<close>

theorem to_snake_is_spec_chain:
  "(\<forall>s. to_snake s = spec_normalize s) \<and>
   to_snake (''A'' @ [CHR 0xF1] @ ''o Adhesi'' @ [CHR 0xF3] @ ''n Establecimiento'')
     = ''ano_adhesion_establecimiento''"
proof
  show "\<forall>s. to_snake s = spec_normalize s"
    unfolding to_snake_def spec_normalize_def Let_def
    by (simp only: fold_passes separator_passes strip_underscores collapse_loop_runs
          simp_thms)
  show "to_snake (''A'' @ [CHR 0xF1] @ ''o Adhesi'' @ [CHR 0xF3] @ ''n Establecimiento'')
     = ''ano_adhesion_establecimiento''"
    by code_simp
qed

text \<open>
  Claim C4. The normaliser is meant to be idempotent. It is not: the whitespace is
  trimmed first and the underscores last, so a tab that an underscore shields from the
  first trim is at the front of the result, and a second application removes it. For the
  header made of an underscore, a tab and the letter a, one application gives tab-a and
  two give a.
\<close>

theorem to_snake_not_idempotent:
  "to_snake [CHR ''_'', CHR 0x09, CHR ''a''] = [CHR 0x09, CHR ''a''] \<and>
   to_snake (to_snake [CHR ''_'', CHR 0x09, CHR ''a'']) = ''a'' \<and>
   to_snake (to_snake [CHR ''_'', CHR 0x09, CHR ''a''])
     \<noteq> to_snake [CHR ''_'', CHR 0x09, CHR ''a'']"
  by code_simp

section \<open>Results on the transformation steps\<close>

text \<open>
  Claim C10. Dropping the completely empty columns and dropping the completely empty
  rows commute: on every table (all columns as long as the index), columns first then
  rows gives the same table as rows first then columns.
\<close>

theorem drop_empty_steps_commute:
  assumes "frame_ok df"
  shows "drop_completely_empty_rows (drop_completely_empty_columns df)
       = drop_completely_empty_columns (drop_completely_empty_rows df)"
proof -
  let ?K = "map (\<lambda>i. list_ex notna (row_cells df i)) [0..<nrows df]"
  have K: "map (\<lambda>i. list_ex notna (row_cells (dropna_all_columns df) i)) [0..<nrows df] = ?K"
    using assms by (simp add: row_mask_drop_columns)
  have F: "filter (\<lambda>nc. list_ex notna (snd nc)) (map (\<lambda>nc. (fst nc, select ?K (snd nc))) (columns df))
      = map (\<lambda>nc. (fst nc, select ?K (snd nc))) (filter (\<lambda>nc. list_ex notna (snd nc)) (columns df))"
    unfolding filter_map comp_def
    by (rule arg_cong [where f = "map _"], rule filter_cong)
       (simp_all add: column_mask_drop_rows [OF assms])
  have L: "drop_completely_empty_rows (drop_completely_empty_columns df)
         = loc_mask ?K (dropna_all_columns df)"
    unfolding drop_completely_empty_rows_def drop_completely_empty_columns_def
    by (simp add: dropna_all_rows_def nrows_drop_columns K)
  have R: "drop_completely_empty_columns (drop_completely_empty_rows df)
         = dropna_all_columns (loc_mask ?K df)"
    unfolding drop_completely_empty_rows_def drop_completely_empty_columns_def
    by (simp add: dropna_all_rows_def)
  show ?thesis
    unfolding L R using F by (simp add: dropna_all_columns_def loc_mask_def)
qed

theorem drop_empty_steps_commute_witness:
  "frame_ok raw_example \<and>
   drop_completely_empty_rows (drop_completely_empty_columns raw_example)
     = drop_completely_empty_columns (drop_completely_empty_rows raw_example) \<and>
   nrows (drop_completely_empty_rows (drop_completely_empty_columns raw_example)) = 3 \<and>
   ncols (drop_completely_empty_rows (drop_completely_empty_columns raw_example)) = 3"
proof -
  have ok: "frame_ok raw_example"
    by (simp add: frame_ok_def raw_example_def)
  have "nrows (drop_completely_empty_rows (drop_completely_empty_columns raw_example)) = 3"
    "ncols (drop_completely_empty_rows (drop_completely_empty_columns raw_example)) = 3"
    by code_simp+
  with ok drop_empty_steps_commute [OF ok] show ?thesis by simp
qed

text \<open>
  Claim C7. On a table with uniquely labelled columns that has the named column, the
  numeric row filter succeeds and keeps exactly the rows whose cell in that column is a
  number or a text that the number parser accepts; a missing cell or a text that does not
  parse drops the row. The rows kept are the input's rows, label and cells unchanged, in
  input order, and the column labels are unchanged. With a parser that reads "2010" and
  rejects "Total", only the 2010 row of the two-row example remains.
\<close>

theorem numeric_row_filter_keeps_parsable_rows:
  "(frame_ok df \<and> distinct (names df) \<and> column \<in> set (names df) \<longrightarrow>
      (\<exists>df'. filter_rows_with_numeric_column parse df column = Inr df' \<and>
         names df' = names df \<and>
         rows df' = filter (\<lambda>r. case cell_in df column r of
                                   NaN \<Rightarrow> False | StrV s \<Rightarrow> parse s \<noteq> None | _ \<Rightarrow> True)
                      (rows df))) \<and>
   (parse ''2010'' \<noteq> None \<and> parse ''Total'' = None \<longrightarrow>
      filter_rows_with_numeric_column parse year_example ''year''
        = Inr \<lparr>index = [0],
               columns = [(''year'', [StrV ''2010'']), (''installations'', [StrV ''5'']),
                          (''companies'', [StrV ''3''])]\<rparr>)"
proof (intro conjI impI)
  assume "frame_ok df \<and> distinct (names df) \<and> column \<in> set (names df)"
  then have ok: "frame_ok df" and d: "distinct (names df)" and c: "column \<in> set (names df)"
    by simp_all
  have "filter_rows_with_numeric_column parse df column
          = Inr (loc_mask (map (\<lambda>c. to_numeric parse c \<noteq> None) (column_cells df column)) df)"
    by (simp add: filter_rows_with_numeric_column_def getitem_column_cells [OF d c])
  moreover have "rows (loc_mask (map (\<lambda>c. to_numeric parse c \<noteq> None) (column_cells df column)) df)
          = filter (\<lambda>r. case cell_in df column r of
                           NaN \<Rightarrow> False | StrV s \<Rightarrow> parse s \<noteq> None | _ \<Rightarrow> True) (rows df)"
    by (simp only: filter_by_column [OF ok c] to_numeric_notna)
  ultimately show "\<exists>df'. filter_rows_with_numeric_column parse df column = Inr df' \<and>
         names df' = names df \<and>
         rows df' = filter (\<lambda>r. case cell_in df column r of
                                   NaN \<Rightarrow> False | StrV s \<Rightarrow> parse s \<noteq> None | _ \<Rightarrow> True)
                      (rows df)"
    by simp
next
  assume "parse ''2010'' \<noteq> None \<and> parse ''Total'' = None"
  then show "filter_rows_with_numeric_column parse year_example ''year''
        = Inr \<lparr>index = [0],
               columns = [(''year'', [StrV ''2010'']), (''installations'', [StrV ''5'']),
                          (''companies'', [StrV ''3''])]\<rparr>"
    by (simp add: filter_rows_with_numeric_column_def getitem_def year_example_def
          to_numeric_def loc_mask_def select_def)
qed

theorem numeric_row_filter_witness:
  "frame_ok year_example \<and> distinct (names year_example) \<and>
   ''year'' \<in> set (names year_example) \<and>
   parse_digits ''2010'' \<noteq> None \<and> parse_digits ''Total'' = None \<and>
   filter_rows_with_numeric_column parse_digits year_example ''year''
     = Inr \<lparr>index = [0],
            columns = [(''year'', [StrV ''2010'']), (''installations'', [StrV ''5'']),
                       (''companies'', [StrV ''3''])]\<rparr> \<and>
   (\<exists>df'. filter_rows_with_numeric_column parse_digits year_example ''year'' = Inr df' \<and>
      rows df' = [(0, [StrV ''2010'', StrV ''5'', StrV ''3''])])"
proof -
  have h: "frame_ok year_example \<and> distinct (names year_example) \<and>
           ''year'' \<in> set (names year_example)"
    by (simp add: frame_ok_def year_example_def names_def)
  have p: "parse_digits ''2010'' \<noteq> None \<and> parse_digits ''Total'' = None"
    by (simp add: parse_digits_def digit_of_def)
  have r: "filter (\<lambda>r. case cell_in year_example ''year'' r of
                     NaN \<Rightarrow> False | StrV s \<Rightarrow> parse_digits s \<noteq> None | _ \<Rightarrow> True)
             (rows year_example) = [(0, [StrV ''2010'', StrV ''5'', StrV ''3''])]"
    by (simp add: rows_def nrows_def row_at_def row_cells_def year_example_def cell_in_def
          column_pos_def names_def parse_digits_def digit_of_def upt_rec)
  show ?thesis
    using numeric_row_filter_keeps_parsable_rows [of year_example "''year''" parse_digits] h p r
    by auto
qed

text \<open>
  Claim C9. On a table with uniquely labelled columns that has the named column, the
  categorical filter succeeds and keeps exactly the rows whose cell in that column, as
  text and lowercased, is among the lowercased allowed labels. The rows kept are the
  input's rows, label and cells unchanged (the original casing stays), in input order.
  With the size labels of the configuration, the rows valued PEQUE\~NA and peque\~na are
  kept as they are and the row valued otra is dropped.
\<close>

theorem value_filter_keeps_allowed_rows:
  "(frame_ok df \<and> distinct (names df) \<and> column \<in> set (names df) \<longrightarrow>
      (\<exists>df'. make_value_filter float_str column allowed_values df = Inr df' \<and>
         names df' = names df \<and>
         rows df' = filter (\<lambda>r. py_lower (astype_str float_str (cell_in df column r))
                                   \<in> set (map py_lower allowed_values))
                      (rows df))) \<and>
   make_value_filter float_str ''company_size'' allowed_sizes size_example
     = Inr \<lparr>index = [0, 1],
            columns =
              [(''company_size'',
                  [StrV (''PEQUE'' @ [CHR 0xD1] @ ''A''), StrV (''peque'' @ [CHR 0xF1] @ ''a'')]),
               (''companies'', [IntV 7, IntV 8])]\<rparr>"
proof (intro conjI impI)
  assume "frame_ok df \<and> distinct (names df) \<and> column \<in> set (names df)"
  then have ok: "frame_ok df" and d: "distinct (names df)" and c: "column \<in> set (names df)"
    by simp_all
  let ?P = "\<lambda>c. py_lower (astype_str float_str c) \<in> set (map py_lower allowed_values)"
  have "make_value_filter float_str column allowed_values df
          = Inr (loc_mask (map ?P (column_cells df column)) df)"
    by (simp add: make_value_filter_alt getitem_column_cells [OF d c])
  moreover have "rows (loc_mask (map ?P (column_cells df column)) df)
          = filter (\<lambda>r. ?P (cell_in df column r)) (rows df)"
    by (rule filter_by_column [OF ok c])
  ultimately show "\<exists>df'. make_value_filter float_str column allowed_values df = Inr df' \<and>
         names df' = names df \<and>
         rows df' = filter (\<lambda>r. py_lower (astype_str float_str (cell_in df column r))
                                   \<in> set (map py_lower allowed_values))
                      (rows df)"
    by simp
next
  have l: "map py_lower allowed_sizes
             = [''peque'' @ [CHR 0xF1] @ ''a'', ''micro'', ''mediana'', ''grande'', ''sspp'']"
    by code_simp
  have m: "map (\<lambda>c. py_lower (astype_str float_str c))
             [StrV (''PEQUE'' @ [CHR 0xD1] @ ''A''), StrV (''peque'' @ [CHR 0xF1] @ ''a''),
              StrV ''otra'']
           = [''peque'' @ [CHR 0xF1] @ ''a'', ''peque'' @ [CHR 0xF1] @ ''a'', ''otra'']"
  proof -
    have "py_lower (''PEQUE'' @ [CHR 0xD1] @ ''A'') = ''peque'' @ [CHR 0xF1] @ ''a''"
      "py_lower (''peque'' @ [CHR 0xF1] @ ''a'') = ''peque'' @ [CHR 0xF1] @ ''a''"
      "py_lower ''otra'' = ''otra''"
      by code_simp+
    then show ?thesis by (simp add: astype_str_def)
  qed
  show "make_value_filter float_str ''company_size'' allowed_sizes size_example
     = Inr \<lparr>index = [0, 1],
            columns =
              [(''company_size'',
                  [StrV (''PEQUE'' @ [CHR 0xD1] @ ''A''), StrV (''peque'' @ [CHR 0xF1] @ ''a'')]),
               (''companies'', [IntV 7, IntV 8])]\<rparr>"
    unfolding make_value_filter_alt l
    using m by (simp add: getitem_def size_example_def loc_mask_def select_def)
qed

theorem value_filter_witness:
  "frame_ok size_example \<and> distinct (names size_example) \<and>
   ''company_size'' \<in> set (names size_example) \<and>
   (\<exists>df'. make_value_filter no_float_str ''company_size'' allowed_sizes size_example = Inr df' \<and>
      rows df' = [(0, [StrV (''PEQUE'' @ [CHR 0xD1] @ ''A''), IntV 7]),
                  (1, [StrV (''peque'' @ [CHR 0xF1] @ ''a''), IntV 8])])"
proof -
  have h: "frame_ok size_example \<and> distinct (names size_example) \<and>
           ''company_size'' \<in> set (names size_example)"
    by (simp add: frame_ok_def size_example_def names_def)
  have r: "filter (\<lambda>r. py_lower (astype_str no_float_str (cell_in size_example ''company_size'' r))
                         \<in> set (map py_lower allowed_sizes))
             (rows size_example)
           = [(0, [StrV (''PEQUE'' @ [CHR 0xD1] @ ''A''), IntV 7]),
              (1, [StrV (''peque'' @ [CHR 0xF1] @ ''a''), IntV 8])]"
    by code_simp
  show ?thesis
    using value_filter_keeps_allowed_rows
            [of size_example "''company_size''" no_float_str allowed_sizes] h r
    by auto
qed

text \<open>
  Claim C6. The column renamer never fails, on any table and with any mapping: it returns
  a table with the same row labels, the same number of columns and the same column
  contents, in which a label that is a key of the mapping is replaced by its target and
  every other column keeps its label and contents. A key that is no label of the table
  changes nothing. When the name a later step needs was never produced, it is that step
  which raises the missing-column error: the chain of a renamer and a numeric row filter
  ends in the filter's \<open>KeyError\<close>; so for the mapping of foo to year on a table
  without foo and without year.
\<close>

theorem renamer_never_fails:
  "(\<exists>df'. apply_transformation lib (ColumnRenamer mapping) df = Inr df' \<and>
      df' = make_column_renamer mapping df \<and>
      index df' = index df \<and>
      ncols df' = ncols df \<and>
      map snd (columns df') = map snd (columns df) \<and>
      names df' = map (\<lambda>n. case mapping n of None \<Rightarrow> n | Some t \<Rightarrow> t) (names df) \<and>
      (\<forall>i. i < ncols df \<and> mapping (fst (columns df ! i)) = None \<longrightarrow>
           columns df' ! i = columns df ! i)) \<and>
   (\<forall>k. k \<notin> set (names df) \<longrightarrow>
        make_column_renamer mapping df = make_column_renamer (mapping(k := None)) df) \<and>
   (target \<notin> set (names (make_column_renamer mapping df)) \<longrightarrow>
        run_transformations lib [ColumnRenamer mapping, NumericRowFilter target] df
          = Inl (KeyError [target])) \<and>
   (''foo'' \<notin> set (names df) \<and> ''year'' \<notin> set (names df) \<longrightarrow>
        make_column_renamer [''foo'' \<mapsto> ''year''] df = df \<and>
        filter_rows_with_numeric_column (lib_parse lib)
          (make_column_renamer [''foo'' \<mapsto> ''year''] df) ''year'' = Inl (KeyError [''year'']))"
proof (intro conjI allI impI)
  show "\<exists>df'. apply_transformation lib (ColumnRenamer mapping) df = Inr df' \<and>
      df' = make_column_renamer mapping df \<and>
      index df' = index df \<and>
      ncols df' = ncols df \<and>
      map snd (columns df') = map snd (columns df) \<and>
      names df' = map (\<lambda>n. case mapping n of None \<Rightarrow> n | Some t \<Rightarrow> t) (names df) \<and>
      (\<forall>i. i < ncols df \<and> mapping (fst (columns df ! i)) = None \<longrightarrow>
           columns df' ! i = columns df ! i)"
    by (simp add: make_column_renamer_def rename_columns_names)
       (simp add: rename_columns_def ncols_def comp_def)
next
  fix k assume k: "k \<notin> set (names df)"
  have "map (\<lambda>nc. (case mapping (fst nc) of None \<Rightarrow> fst nc | Some t \<Rightarrow> t, snd nc)) (columns df)
      = map (\<lambda>nc. (case (mapping(k := None)) (fst nc) of None \<Rightarrow> fst nc | Some t \<Rightarrow> t, snd nc))
          (columns df)"
    using k by (intro map_cong) (auto simp: names_def)
  then show "make_column_renamer mapping df = make_column_renamer (mapping(k := None)) df"
    by (simp add: make_column_renamer_def rename_columns_def)
next
  assume "target \<notin> set (names (make_column_renamer mapping df))"
  then show "run_transformations lib [ColumnRenamer mapping, NumericRowFilter target] df
          = Inl (KeyError [target])"
    by (simp add: make_numeric_row_filter_def filter_rows_with_numeric_column_def getitem_missing)
next
  assume a: "''foo'' \<notin> set (names df) \<and> ''year'' \<notin> set (names df)"
  then have "\<And>n. n \<in> set (names df) \<Longrightarrow> [''foo'' \<mapsto> ''year''] n = None"
    by auto
  then show r: "make_column_renamer [''foo'' \<mapsto> ''year''] df = df"
    unfolding make_column_renamer_def by (rule rename_columns_noop)
  show "filter_rows_with_numeric_column (lib_parse lib)
          (make_column_renamer [''foo'' \<mapsto> ''year''] df) ''year'' = Inl (KeyError [''year''])"
    using a by (simp add: r filter_rows_with_numeric_column_def getitem_missing)
qed

theorem renamer_witness:
  "''foo'' \<notin> set (names raw_example) \<and> ''year'' \<notin> set (names raw_example) \<and>
   make_column_renamer [''foo'' \<mapsto> ''year''] raw_example = raw_example \<and>
   run_transformations example_library
     [ColumnRenamer [''foo'' \<mapsto> ''year''], NumericRowFilter ''year''] raw_example
     = Inl (KeyError [''year''])"
proof -
  have n: "''foo'' \<notin> set (names raw_example) \<and> ''year'' \<notin> set (names raw_example)"
    by (simp add: names_def raw_example_def)
  have "make_column_renamer [''foo'' \<mapsto> ''year''] raw_example = raw_example"
    using renamer_never_fails [of example_library "[''foo'' \<mapsto> ''year'']" raw_example "''year''"] n
    by blast
  moreover from this have
    "''year'' \<notin> set (names (make_column_renamer [''foo'' \<mapsto> ''year''] raw_example))"
    using n by simp
  then have "run_transformations example_library
     [ColumnRenamer [''foo'' \<mapsto> ''year''], NumericRowFilter ''year''] raw_example
     = Inl (KeyError [''year''])"
    using renamer_never_fails [of example_library "[''foo'' \<mapsto> ''year'']" raw_example "''year''"]
    by blast
  ultimately show ?thesis using n by blast
qed

text \<open>
  Claim C3, as stated, fails: the non-null filter is a step that is neither a drop-empty
  step nor the numeric or the categorical filter, and it drops the rows with a missing
  cell in its columns. On the table of counts, whose third row has no companies cell, it
  returns two of the three rows.
\<close>

theorem non_null_filter_drops_rows:
  "apply_transformation example_library (NonNullFilter [''companies'']) counts_example
     = Inr \<lparr>index = [0, 1],
            columns =
              [(''year'', [IntV 2010, IntV 2011]),
               (''installations'', [StrV ''5'', NaN]),
               (''companies'', [FloatV (Finite (7 / 2)), IntV 2])]\<rparr> \<and>
   nrows counts_example = 3 \<and>
   nrows \<lparr>index = [0, 1],
          columns =
            [(''year'', [IntV 2010, IntV 2011]),
             (''installations'', [StrV ''5'', NaN]),
             (''companies'', [FloatV (Finite (7 / 2)), IntV 2])]\<rparr> = 2"
  by (simp add: make_non_null_filter_def dropna_any_subset_def names_def counts_example_def
        nrows_def loc_mask_def select_def notna_def upt_rec)

text \<open>
  Claim C3, amended. On every table and for every step that succeeds (the sorting routine
  having ordered the keys of a sorter step): the two drop-empty steps never increase the
  row count or the column count; the numeric row filter, the categorical filter and the
  non-null filter never increase the row count; every other step (name normaliser,
  renamer, integer cast, integer enforcer, sorter) leaves the row count as it is.
\<close>

theorem row_count_rules:
  "frame_ok df \<and> routine_ok lib t df \<and> apply_transformation lib t df = Inr df' \<longrightarrow>
     (case t of
        DropEmptyColumns \<Rightarrow> nrows df' \<le> nrows df \<and> ncols df' \<le> ncols df
      | DropEmptyRows \<Rightarrow> nrows df' \<le> nrows df \<and> ncols df' \<le> ncols df
      | NumericRowFilter column \<Rightarrow> nrows df' \<le> nrows df
      | ValueFilter column allowed_values \<Rightarrow> nrows df' \<le> nrows df
      | NonNullFilter cols \<Rightarrow> nrows df' \<le> nrows df
      | _ \<Rightarrow> nrows df' = nrows df)"
proof (intro impI)
  assume "frame_ok df \<and> routine_ok lib t df \<and> apply_transformation lib t df = Inr df'"
  then have ok: "frame_ok df" and ro: "routine_ok lib t df"
    and ap: "apply_transformation lib t df = Inr df'"
    by simp_all
  show "case t of
        DropEmptyColumns \<Rightarrow> nrows df' \<le> nrows df \<and> ncols df' \<le> ncols df
      | DropEmptyRows \<Rightarrow> nrows df' \<le> nrows df \<and> ncols df' \<le> ncols df
      | NumericRowFilter column \<Rightarrow> nrows df' \<le> nrows df
      | ValueFilter column allowed_values \<Rightarrow> nrows df' \<le> nrows df
      | NonNullFilter cols \<Rightarrow> nrows df' \<le> nrows df
      | _ \<Rightarrow> nrows df' = nrows df"
  proof (cases t)
    case DropEmptyColumns
    with ap have "df' = dropna_all_columns df"
      by (simp add: drop_completely_empty_columns_def)
    then show ?thesis
      using DropEmptyColumns by (simp add: nrows_def ncols_def dropna_all_columns_def)
  next
    case DropEmptyRows
    with ap have "df' = dropna_all_rows df"
      by (simp add: drop_completely_empty_rows_def)
    then show ?thesis
      using DropEmptyRows by (simp add: dropna_all_rows_def nrows_loc_mask_le ncols_loc_mask)
  next
    case StandardizeNames
    with ap show ?thesis
      by (auto simp: standardize_column_names_def rename_columns_def nrows_def)
  next
    case (ColumnRenamer mapping)
    with ap show ?thesis
      by (auto simp: make_column_renamer_def rename_columns_def nrows_def)
  next
    case (NumericRowFilter column)
    with ap show ?thesis
      by (auto simp: make_numeric_row_filter_def filter_rows_with_numeric_column_def
            nrows_loc_mask_le split: sum.splits)
  next
    case (IntegerColumn column)
    with ap show ?thesis
      by (auto simp: make_integer_column_def nrows_def split: sum.splits)
  next
    case (IntegerEnforcer cols)
    with ap have "index df' = index df"
      by (simp add: make_integer_enforcer_def enforce_integer_columns_index)
    then show ?thesis using IntegerEnforcer by (simp add: nrows_def)
  next
    case (Sorter column ascending)
    with ap ro have "index df' = [0..<nrows df]"
      by (intro sort_by_column_index [OF ok]) (simp_all add: make_sorter_def routine_ok_def)
    then show ?thesis using Sorter by (simp add: nrows_def)
  next
    case (NonNullFilter cols)
    with ap show ?thesis
      by (auto simp: make_non_null_filter_def dropna_any_subset_def nrows_loc_mask_le
            split: list.splits)
  next
    case (ValueFilter column allowed_values)
    with ap show ?thesis
      by (auto simp: make_value_filter_alt nrows_loc_mask_le split: sum.splits)
  qed
qed

theorem row_count_rules_witness:
  "frame_ok counts_example \<and>
   routine_ok example_library (Sorter ''year'' False) counts_example \<and>
   apply_transformation example_library (Sorter ''year'' False) counts_example
     = Inr \<lparr>index = [0, 1, 2],
            columns =
              [(''year'', [IntV 2012, IntV 2011, IntV 2010]),
               (''installations'', [StrV ''n/a'', NaN, StrV ''5'']),
               (''companies'', [NaN, IntV 2, FloatV (Finite (7 / 2))])]\<rparr> \<and>
   nrows \<lparr>index = [0, 1, 2],
          columns =
            [(''year'', [IntV 2012, IntV 2011, IntV 2010]),
             (''installations'', [StrV ''n/a'', NaN, StrV ''5'']),
             (''companies'', [NaN, IntV 2, FloatV (Finite (7 / 2))])]\<rparr> = nrows counts_example"
proof -
  have ok: "frame_ok counts_example"
    by (simp add: frame_ok_def counts_example_def)
  show ?thesis
    using row_count_rules [of counts_example example_library "Sorter ''year'' False"]
      ok counts_example_routine_ok counts_example_sorted
    by simp
qed

text \<open>
  Claim C8, as stated, fails: the cast to integer raises on an infinite value. On the table
  whose installations column holds the texts 5 and inf, with a parser that reads inf as
  infinity (as the library's does), the single-column cast and the enforcer both end in
  \<open>ValueError\<close> and return no table.
\<close>

theorem integer_coercion_fails_on_infinity:
  "''installations'' \<in> set (names inf_example) \<and>
   parse_digits ''inf'' = Some PosInf \<and>
   make_integer_column parse_digits wrap_min ''installations'' inf_example = Inl ValueError \<and>
   make_integer_enforcer parse_digits wrap_min [''installations''] inf_example = Inl ValueError"
  by (simp add: make_integer_column_def make_integer_enforcer_def getitem_def inf_example_def
        names_def to_int_series_def astype_int_def to_numeric_def fillna0_def is_finite_def
        parse_digits_def digit_of_def)

text \<open>
  Claim C8, amended. On a table with uniquely labelled columns that has the named
  columns, none of whose cells in those columns is infinite (as a float or as a text that
  parses to infinity), integer coercion succeeds and drops no row, for the enforcer over
  a set of columns and for the cast of one column alike: the row labels and the column
  labels are those of the input, every column keeps its length, the columns not named are
  unchanged, and every cell of a named column is an integer: 0 for a missing cell or a
  text that does not parse, the value truncated towards zero for a number or a text that
  parses to a value within the 64-bit range (an integer cell in that range is unchanged).
  When the column holds an infinite value the cast fails with \<open>ValueError\<close>.
\<close>

theorem integer_coercion_keeps_rows:
  "(frame_ok df \<and> distinct (names df) \<and> distinct cols \<and> set cols \<subseteq> set (names df) \<and>
    (\<forall>n \<in> set cols. list_all (finite_cell parse) (column_cells df n)) \<longrightarrow>
      (\<exists>df'. enforce_integer_columns parse wrap df cols = Inr df' \<and>
         index df' = index df \<and> names df' = names df \<and> nrows df' = nrows df \<and>
         (\<forall>n \<in> set (names df).
            length (column_cells df' n) = nrows df \<and>
            column_cells df' n =
              (if n \<in> set cols
               then map (\<lambda>c. IntV (case c of
                                      NaN \<Rightarrow> 0
                                    | IntV i \<Rightarrow> cast_int64 wrap (of_int i)
                                    | FloatV x \<Rightarrow> cast_int64 wrap (finite_value x)
                                    | StrV s \<Rightarrow> (case parse s of None \<Rightarrow> 0
                                                 | Some x \<Rightarrow> cast_int64 wrap (finite_value x))))
                      (column_cells df n)
               else column_cells df n)) \<and>
         (\<forall>n \<in> set cols. list_all is_int (column_cells df' n)))) \<and>
   (frame_ok df \<and> distinct (names df) \<and> column \<in> set (names df) \<and>
    list_all (finite_cell parse) (column_cells df column) \<longrightarrow>
      (\<exists>df'. make_integer_column parse wrap column df = Inr df' \<and>
         index df' = index df \<and> names df' = names df \<and> nrows df' = nrows df \<and>
         (\<forall>n \<in> set (names df).
            length (column_cells df' n) = nrows df \<and>
            column_cells df' n =
              (if n = column
               then map (\<lambda>c. IntV (case c of
                                      NaN \<Rightarrow> 0
                                    | IntV i \<Rightarrow> cast_int64 wrap (of_int i)
                                    | FloatV x \<Rightarrow> cast_int64 wrap (finite_value x)
                                    | StrV s \<Rightarrow> (case parse s of None \<Rightarrow> 0
                                                 | Some x \<Rightarrow> cast_int64 wrap (finite_value x))))
                      (column_cells df n)
               else column_cells df n)) \<and>
         list_all is_int (column_cells df' column))) \<and>
   (distinct (names df) \<and> column \<in> set (names df) \<and>
    \<not> list_all (finite_cell parse) (column_cells df column) \<longrightarrow>
      make_integer_column parse wrap column df = Inl ValueError) \<and>
   (\<forall>q. in_int64 (trunc_zero q) \<longrightarrow> cast_int64 wrap q = trunc_zero q) \<and>
   (\<forall>i. in_int64 i \<longrightarrow> cast_int64 wrap (of_int i) = i)"
proof -
  let ?f = "\<lambda>c. IntV (case c of
                        NaN \<Rightarrow> 0
                      | IntV i \<Rightarrow> cast_int64 wrap (of_int i)
                      | FloatV x \<Rightarrow> cast_int64 wrap (finite_value x)
                      | StrV s \<Rightarrow> (case parse s of None \<Rightarrow> 0
                                   | Some x \<Rightarrow> cast_int64 wrap (finite_value x)))"
  have tc: "int_cell parse wrap = ?f"
    by (rule ext) (rule int_cell_cases)
  have main: "\<exists>df'. enforce_integer_columns parse wrap df cs = Inr df' \<and>
         index df' = index df \<and> names df' = names df \<and> nrows df' = nrows df \<and>
         (\<forall>n \<in> set (names df).
            length (column_cells df' n) = nrows df \<and>
            column_cells df' n =
              (if n \<in> set cs then map ?f (column_cells df n) else column_cells df n)) \<and>
         (\<forall>n \<in> set cs. list_all is_int (column_cells df' n))"
    if h: "frame_ok df" "distinct (names df)" "distinct cs" "set cs \<subseteq> set (names df)"
      "\<forall>n \<in> set cs. list_all (finite_cell parse) (column_cells df n)" for cs
  proof -
    from enforce_integer_columns_result [OF h, of wrap]
    obtain df' where r: "enforce_integer_columns parse wrap df cs = Inr df'"
      and i: "index df' = index df" and n: "names df' = names df" and ok: "frame_ok df'"
      and v: "\<forall>n \<in> set (names df). column_cells df' n =
              (if n \<in> set cs then map (int_cell parse wrap) (column_cells df n)
               else column_cells df n)"
      by blast
    have len: "\<forall>n \<in> set (names df). length (column_cells df' n) = nrows df"
      using ok n i by (simp add: length_column_cells nrows_def)
    have ints: "\<forall>n \<in> set cs. list_all is_int (column_cells df' n)"
    proof
      fix m assume "m \<in> set cs"
      with h(4) v have "column_cells df' m = map (int_cell parse wrap) (column_cells df m)"
        by auto
      then show "list_all is_int (column_cells df' m)"
        by (simp add: list_all_iff)
    qed
    show ?thesis
      using r i n len v ints unfolding tc by (simp add: nrows_def)
  qed
  have single: "\<exists>df'. make_integer_column parse wrap column df = Inr df' \<and>
         index df' = index df \<and> names df' = names df \<and> nrows df' = nrows df \<and>
         (\<forall>n \<in> set (names df).
            length (column_cells df' n) = nrows df \<and>
            column_cells df' n =
              (if n = column then map ?f (column_cells df n) else column_cells df n)) \<and>
         list_all is_int (column_cells df' column)"
    if h: "frame_ok df" "distinct (names df)" "column \<in> set (names df)"
      "list_all (finite_cell parse) (column_cells df column)"
  proof -
    have "\<exists>df'. enforce_integer_columns parse wrap df [column] = Inr df' \<and>
         index df' = index df \<and> names df' = names df \<and> nrows df' = nrows df \<and>
         (\<forall>n \<in> set (names df).
            length (column_cells df' n) = nrows df \<and>
            column_cells df' n =
              (if n \<in> set [column] then map ?f (column_cells df n) else column_cells df n)) \<and>
         (\<forall>n \<in> set [column]. list_all is_int (column_cells df' n))"
      using h by (intro main) simp_all
    then show ?thesis
      unfolding make_integer_column_enforce by simp
  qed
  have fails: "make_integer_column parse wrap column df = Inl ValueError"
    if h: "distinct (names df)" "column \<in> set (names df)"
      "\<not> list_all (finite_cell parse) (column_cells df column)"
    using h by (simp add: make_integer_column_def getitem_column_cells to_int_series_infinite)
  have c1: "\<forall>q. in_int64 (trunc_zero q) \<longrightarrow> cast_int64 wrap q = trunc_zero q"
    by (simp add: cast_int64_in_range)
  have c2: "\<forall>i. in_int64 i \<longrightarrow> cast_int64 wrap (of_int i) = i"
    by (simp add: cast_int64_def)
  show ?thesis
    using main [of cols] single fails c1 c2 by blast
qed

theorem integer_coercion_witness:
  "frame_ok counts_example \<and> distinct (names counts_example) \<and>
   distinct [''installations'', ''companies''] \<and>
   set [''installations'', ''companies''] \<subseteq> set (names counts_example) \<and>
   list_all (finite_cell parse_digits) (column_cells counts_example ''installations'') \<and>
   list_all (finite_cell parse_digits) (column_cells counts_example ''companies'') \<and>
   enforce_integer_columns parse_digits wrap_min counts_example [''installations'', ''companies'']
     = Inr \<lparr>index = [0, 1, 2],
            columns =
              [(''year'', [IntV 2010, IntV 2011, IntV 2012]),
               (''installations'', [IntV 5, IntV 0, IntV 0]),
               (''companies'', [IntV 3, IntV 2, IntV 0])]\<rparr> \<and>
   (\<exists>df'. enforce_integer_columns parse_digits wrap_min counts_example
             [''installations'', ''companies''] = Inr df' \<and> nrows df' = 3) \<and>
   (\<exists>df'. make_integer_column parse_digits wrap_min ''companies'' counts_example = Inr df' \<and>
      nrows df' = 3) \<and>
   in_int64 (trunc_zero (7 / 2)) \<and> cast_int64 wrap_min (7 / 2) = trunc_zero (7 / 2)"
proof -
  have h: "frame_ok counts_example \<and> distinct (names counts_example) \<and>
           distinct [''installations'', ''companies''] \<and>
           set [''installations'', ''companies''] \<subseteq> set (names counts_example)"
    by (simp add: frame_ok_def counts_example_def names_def)
  have fin: "list_all (finite_cell parse_digits) (column_cells counts_example ''installations'')"
    "list_all (finite_cell parse_digits) (column_cells counts_example ''companies'')"
    using counts_example_finite by simp_all
  have y: "''companies'' \<in> set (names counts_example)"
    by (simp add: counts_example_def names_def)
  have n: "nrows counts_example = 3"
    by (simp add: nrows_def counts_example_def)
  have fl: "\<lfloor>7 / 2 :: rat\<rfloor> = 3"
    by (rule floor_unique) simp_all
  have r: "in_int64 (trunc_zero (7 / 2))"
    by (simp add: trunc_zero_def in_int64_def fl)
  note t = integer_coercion_keeps_rows
      [of counts_example "[''installations'', ''companies'']" parse_digits wrap_min
          "''companies''"]
  have a: "\<exists>df'. enforce_integer_columns parse_digits wrap_min counts_example
                   [''installations'', ''companies''] = Inr df' \<and> nrows df' = 3"
    using t h counts_example_finite n by auto
  have b: "\<exists>df'. make_integer_column parse_digits wrap_min ''companies'' counts_example = Inr df' \<and>
                 nrows df' = 3"
    using t h y fin n by auto
  have c: "cast_int64 wrap_min (7 / 2) = trunc_zero (7 / 2)"
    using t r by blast
  show ?thesis
    using h fin a b c r counts_example_coerced by simp
qed




end
